theory Spec2Isabelle
  imports Complex_Main "HOL-Library.Word"
begin

section \<open>Numbers and strings of the host language\<close>

text \<open>
  The colour arithmetic of \<^verbatim>\<open>ColorUtility\<close> runs on JavaScript numbers. They are
  modelled by exact rationals (by reals where \<^verbatim>\<open>Math.pow\<close> is involved); the value
  \<^verbatim>\<open>NaN\<close> is modelled by \<open>None\<close> wherever the code can produce it.
  \<^verbatim>\<open>Math.round\<close> rounds to the nearest integer, halves upwards.
\<close>

definition js_round :: "'a :: floor_ceiling \<Rightarrow> int" where
  "js_round x = \<lfloor>x + 1 / 2\<rfloor>"

text \<open>The remainder operator \<^verbatim>\<open>%\<close> truncates towards zero: the result has the sign
  of the dividend.\<close>

definition js_rem :: "int \<Rightarrow> int \<Rightarrow> int" where
  "js_rem a n = sgn a * (\<bar>a\<bar> mod \<bar>n\<bar>)"

text \<open>\<^verbatim>\<open>Number.prototype.toString(16)\<close> on an integer: lower-case digits, no leading
  zeros, a minus sign for negative values.\<close>

definition hexDigit :: "nat \<Rightarrow> char" where
  "hexDigit d = ''0123456789abcdef'' ! d"

fun digits16 :: "nat \<Rightarrow> string" where
  "digits16 n = (if n < 16 then [hexDigit n] else digits16 (n div 16) @ [hexDigit (n mod 16)])"

declare digits16.simps [simp del]

definition toString16 :: "int \<Rightarrow> string" where
  "toString16 n = (if n < 0 then CHR ''-'' # digits16 (nat (- n)) else digits16 (nat n))"

definition padStart :: "nat \<Rightarrow> char \<Rightarrow> string \<Rightarrow> string" where
  "padStart n c str = replicate (n - length str) c @ str"

text \<open>\<^verbatim>\<open>toUpperCase\<close>, on the ASCII letters (the only letters that reach it here).\<close>

definition toUpperChar :: "char \<Rightarrow> char" where
  "toUpperChar c =
     (case map_of (zip ''abcdefghijklmnopqrstuvwxyz'' ''ABCDEFGHIJKLMNOPQRSTUVWXYZ'') c of
        Some u \<Rightarrow> u
      | None \<Rightarrow> c)"

definition toUpperCase :: "string \<Rightarrow> string" where
  "toUpperCase str = map toUpperChar str"

text \<open>\<^verbatim>\<open>substring(i, j)\<close> for \<open>i \<le> j\<close>; indices beyond the end are clamped.\<close>

definition substring :: "string \<Rightarrow> nat \<Rightarrow> nat \<Rightarrow> string" where
  "substring str i j = take (j - i) (drop i str)"

text \<open>\<^verbatim>\<open>hex.replace(/^#/, '')\<close>: one leading hash sign is removed.\<close>

definition stripHash :: "string \<Rightarrow> string" where
  "stripHash str = (case str of c # cs \<Rightarrow> if c = CHR ''#'' then cs else str | [] \<Rightarrow> [])"

text \<open>
  \<^verbatim>\<open>parseInt(str, 16)\<close>: leading white space is skipped, a sign and a \<^verbatim>\<open>0x\<close> prefix
  are accepted, then the longest run of hexadecimal digits is read; with no digit the
  result is \<^verbatim>\<open>NaN\<close> (\<open>None\<close>).
\<close>

definition digitValue :: "char \<Rightarrow> nat option" where
  "digitValue c =
     map_of (zip ''0123456789abcdef'' [0 ..< 16] @ zip ''ABCDEF'' [10 ..< 16]) c"

definition isWhiteSpace :: "char \<Rightarrow> bool" where
  "isWhiteSpace c = ((of_char c :: nat) \<in> {9, 10, 11, 12, 13, 32, 160})"

fun readDigits :: "nat option \<Rightarrow> string \<Rightarrow> nat option" where
  "readDigits acc [] = acc"
| "readDigits acc (c # cs) =
     (case digitValue c of
        None \<Rightarrow> acc
      | Some d \<Rightarrow> readDigits (Some (16 * (case acc of None \<Rightarrow> 0 | Some a \<Rightarrow> a) + d)) cs)"

definition stripRadixPrefix :: "string \<Rightarrow> string" where
  "stripRadixPrefix str =
     (case str of
        c # d # rest \<Rightarrow> if c = CHR ''0'' \<and> (d = CHR ''x'' \<or> d = CHR ''X'') then rest else str
      | _ \<Rightarrow> str)"

definition parseInt16 :: "string \<Rightarrow> int option" where
  "parseInt16 str =
     (let trimmed = dropWhile isWhiteSpace str;
          negative = (case trimmed of c # _ \<Rightarrow> c = CHR ''-'' | [] \<Rightarrow> False);
          unsigned = (case trimmed of
                        c # cs \<Rightarrow> if c = CHR ''-'' \<or> c = CHR ''+'' then cs else trimmed
                      | [] \<Rightarrow> [])
      in map_option (\<lambda>n. if negative then - int n else int n)
           (readDigits None (stripRadixPrefix unsigned)))"

section \<open>ColorUtility\<close>

record 'a rgb =
  r :: 'a
  g :: 'a
  b :: 'a

record hsl =
  h :: int
  s :: int
  l :: int

definition hexToRgb :: "string \<Rightarrow> int option rgb" where
  "hexToRgb hexStr =
     (let cleanHex = stripHash hexStr in
      \<lparr>r = parseInt16 (substring cleanHex 0 2),
       g = parseInt16 (substring cleanHex 2 4),
       b = parseInt16 (substring cleanHex 4 6)\<rparr>)"

definition toHex :: "rat \<Rightarrow> string" where
  "toHex v = padStart 2 (CHR ''0'') (toString16 (js_round v))"

definition rgbToHex :: "rat \<Rightarrow> rat \<Rightarrow> rat \<Rightarrow> string" where
  "rgbToHex rv gv bv = toUpperCase (CHR ''#'' # toHex rv @ toHex gv @ toHex bv)"


text \<open>
  \<^verbatim>\<open>rgbToHsl\<close>. The \<^verbatim>\<open>switch (max)\<close> takes the first channel equal to the maximum, in
  the order r, g, b. For channels in 0..255 no divisor is zero where \<open>delta \<noteq> 0\<close>.
\<close>

definition rgbToHsl :: "rat \<Rightarrow> rat \<Rightarrow> rat \<Rightarrow> hsl" where
  "rgbToHsl rv gv bv =
     (let r' = rv / 255; g' = gv / 255; b' = bv / 255;
          mx = max (max r' g') b';
          mn = min (min r' g') b';
          delta = mx - mn;
          lig = (mx + mn) / 2;
          sat = (if delta \<noteq> 0
                 then (if lig > 1 / 2 then delta / (2 - mx - mn) else delta / (mx + mn))
                 else 0);
          hue = (if delta \<noteq> 0
                 then (if mx = r' then ((g' - b') / delta + (if g' < b' then 6 else 0)) / 6
                       else if mx = g' then ((b' - r') / delta + 2) / 6
                       else ((r' - g') / delta + 4) / 6)
                 else 0)
      in \<lparr>h = js_round (hue * 360), s = js_round (sat * 100), l = js_round (lig * 100)\<rparr>)"

text \<open>
  \<^verbatim>\<open>hslToRgb\<close>. The hue may be \<^verbatim>\<open>NaN\<close> (\<open>None\<close>): every comparison of
  \<^verbatim>\<open>hue2rgb\<close> is then false and \<open>p\<close> is returned.
\<close>

definition hue2rgb :: "rat \<Rightarrow> rat \<Rightarrow> rat option \<Rightarrow> rat" where
  "hue2rgb p q t0 =
     (case t0 of
        None \<Rightarrow> p
      | Some t \<Rightarrow>
          (let t1 = (if t < 0 then t + 1 else t);
               t2 = (if t1 > 1 then t1 - 1 else t1)
           in if t2 < 1 / 6 then p + (q - p) * 6 * t2
              else if t2 < 1 / 2 then q
              else if t2 < 2 / 3 then p + (q - p) * (2 / 3 - t2) * 6
              else p))"

definition hslToRgb :: "rat option \<Rightarrow> rat \<Rightarrow> rat \<Rightarrow> int rgb" where
  "hslToRgb hue sat lig =
     (let h' = map_option (\<lambda>x. x / 360) hue; s' = sat / 100; l' = lig / 100
      in if s' = 0
         then \<lparr>r = js_round (l' * 255), g = js_round (l' * 255), b = js_round (l' * 255)\<rparr>
         else (let q = (if l' < 1 / 2 then l' * (1 + s') else l' + s' - l' * s');
                   p = 2 * l' - q
               in \<lparr>r = js_round (hue2rgb p q (map_option (\<lambda>x. x + 1 / 3) h') * 255),
                   g = js_round (hue2rgb p q h' * 255),
                   b = js_round (hue2rgb p q (map_option (\<lambda>x. x - 1 / 3) h') * 255)\<rparr>))"

text \<open>The idiom \<^verbatim>\<open>rgbToHex(...Object.values(hslToRgb(h, s, l)))\<close> of the generators.\<close>

definition hslHex :: "rat option \<Rightarrow> rat \<Rightarrow> rat \<Rightarrow> string" where
  "hslHex hue sat lig =
     (let c = hslToRgb hue sat lig in rgbToHex (of_int (r c)) (of_int (g c)) (of_int (b c)))"

text \<open>
  \<^verbatim>\<open>rgbToHsl(rgb.r, rgb.g, rgb.b)\<close> on the result of \<^verbatim>\<open>hexToRgb\<close>. A channel that is
  \<^verbatim>\<open>NaN\<close> makes saturation and lightness \<^verbatim>\<open>NaN\<close> (\<open>None\<close> here); converting
  that back gives three \<^verbatim>\<open>NaN\<close> channels, which \<^verbatim>\<open>rgbToHex\<close> prints as
  \<^verbatim>\<open>#NANNANNAN\<close>.
\<close>

definition hexToHsl :: "string \<Rightarrow> hsl option" where
  "hexToHsl hexStr =
     (let rgb = hexToRgb hexStr
      in case (r rgb, g rgb, b rgb) of
           (Some rv, Some gv, Some bv) \<Rightarrow> Some (rgbToHsl (of_int rv) (of_int gv) (of_int bv))
         | _ \<Rightarrow> None)"

definition hslToHex :: "hsl option \<Rightarrow> string" where
  "hslToHex v =
     (case v of
        None \<Rightarrow> ''#NANNANNAN''
      | Some c \<Rightarrow> hslHex (Some (of_int (h c))) (of_int (s c)) (of_int (l c)))"

section \<open>AccessibilityChecker\<close>

definition linearize :: "real \<Rightarrow> real" where
  "linearize channel =
     (if channel \<le> 0.03928 then channel / 12.92 else ((channel + 0.055) / 1.055) powr 2.4)"

definition getRelativeLuminance :: "string \<Rightarrow> real option" where
  "getRelativeLuminance hexStr =
     (let cleanHex = stripHash hexStr
      in case (parseInt16 (substring cleanHex 0 2), parseInt16 (substring cleanHex 2 4),
               parseInt16 (substring cleanHex 4 6)) of
           (Some rv, Some gv, Some bv) \<Rightarrow>
             Some (0.2126 * linearize (of_int rv / 255) + 0.7152 * linearize (of_int gv / 255)
                   + 0.0722 * linearize (of_int bv / 255))
         | _ \<Rightarrow> None)"

definition calculateContrastRatio :: "string \<Rightarrow> string \<Rightarrow> real option" where
  "calculateContrastRatio color1Hex color2Hex =
     (case (getRelativeLuminance color1Hex, getRelativeLuminance color2Hex) of
        (Some l1, Some l2) \<Rightarrow>
          (let lighter = max l1 l2; darker = min l1 l2
           in Some ((lighter + 0.05) / (darker + 0.05)))
      | _ \<Rightarrow> None)"

definition meetsWCAG_AA :: "real \<Rightarrow> bool" where
  "meetsWCAG_AA contrastRatio = (contrastRatio \<ge> 4.5)"

definition meetsWCAG_AAA :: "real \<Rightarrow> bool" where
  "meetsWCAG_AAA contrastRatio = (contrastRatio \<ge> 7)"

record color =
  hex :: string
  role :: string
  usage :: string

text \<open>An entry of \<^verbatim>\<open>palette.colors\<close> is a bare hex string or a colour object;
  \<^verbatim>\<open>findAccessiblePairs\<close> accepts both.\<close>

datatype color_value = HexString string | ColorObject color

fun hexOf :: "color_value \<Rightarrow> string" where
  "hexOf (HexString str) = str"
| "hexOf (ColorObject c) = hex c"

record accessible_pair =
  text_hex :: string
  background_hex :: string
  ratio :: real

text \<open>
  The two nested loops of \<^verbatim>\<open>findAccessiblePairs\<close> over \<^verbatim>\<open>Object.entries(colors)\<close>.
  A ratio that is \<^verbatim>\<open>NaN\<close> fails the test \<^verbatim>\<open>ratio >= 4.5\<close>.
\<close>

definition pairAt :: "(string \<times> color_value) list \<Rightarrow> nat \<Rightarrow> nat \<Rightarrow> accessible_pair list" where
  "pairAt colorEntries i j =
     (if i = j then []
      else (let textHex = hexOf (snd (colorEntries ! i));
                bgHex = hexOf (snd (colorEntries ! j))
            in case calculateContrastRatio textHex bgHex of
                 None \<Rightarrow> []
               | Some x \<Rightarrow>
                   if meetsWCAG_AA x
                   then [\<lparr>text_hex = textHex, background_hex = bgHex,
                          ratio = of_int (js_round (x * 100)) / 100\<rparr>]
                   else []))"

definition findAccessiblePairs :: "(string \<times> color_value) list \<Rightarrow> accessible_pair list" where
  "findAccessiblePairs colorEntries =
     concat (map (\<lambda>i. concat (map (\<lambda>j. pairAt colorEntries i j) [0 ..< length colorEntries]))
                 [0 ..< length colorEntries])"

section \<open>PaletteGenerator\<close>

text \<open>A palette; its \<^verbatim>\<open>name\<close> and \<^verbatim>\<open>vibe\<close> strings are not part of this development.\<close>

record palette =
  colors :: "(string \<times> color) list"
  accessiblePairs :: "accessible_pair list"

text \<open>The purpose is a list of UTF-16 code units, as \<^verbatim>\<open>charCodeAt\<close> reads it.\<close>

record preferences =
  appType :: string
  purpose :: "16 word list"
  colorMood :: string

definition mkPalette :: "string \<Rightarrow> string \<Rightarrow> string \<Rightarrow> string \<Rightarrow> string \<Rightarrow> string \<Rightarrow> palette" where
  "mkPalette primary secondary accent background surface textColor =
     \<lparr>colors =
        [(''primary'', \<lparr>hex = primary, role = ''primary'', usage = ''Use for main buttons and CTAs''\<rparr>),
         (''secondary'', \<lparr>hex = secondary, role = ''secondary'',
            usage = ''Use for secondary actions and highlights''\<rparr>),
         (''accent'', \<lparr>hex = accent, role = ''accent'',
            usage = ''Use for important UI elements and notifications''\<rparr>),
         (''background'', \<lparr>hex = background, role = ''background'',
            usage = ''Use for main page background''\<rparr>),
         (''surface'', \<lparr>hex = surface, role = ''surface'',
            usage = ''Use for cards and elevated surfaces''\<rparr>),
         (''text'', \<lparr>hex = textColor, role = ''text'', usage = ''Use for body text and headings''\<rparr>)],
      accessiblePairs = []\<rparr>"

text \<open>A seed hue is an integer or \<^verbatim>\<open>NaN\<close>; arithmetic on \<^verbatim>\<open>NaN\<close> gives
  \<^verbatim>\<open>NaN\<close> and every comparison with it is false.\<close>

definition hueArg :: "int option \<Rightarrow> rat option" where
  "hueArg x = map_option of_int x"

text \<open>The two adjustments of the seed \<open>sd\<close> at the head of \<^verbatim>\<open>generateWarmPalette\<close>.\<close>

definition warmFold :: "int \<Rightarrow> int" where
  "warmFold sd =
     (let w1 = (if sd > 90 \<and> sd < 330 then js_rem sd 60 else sd)
      in if w1 > 60 \<and> w1 < 330 then js_rem w1 60 else w1)"

definition generateWarmPalette :: "int option \<Rightarrow> palette" where
  "generateWarmPalette seedHue =
     (let warmHue = map_option warmFold seedHue;
          primary = hslHex (hueArg warmHue) 70 55;
          secondaryHue = map_option (\<lambda>w. js_rem (w + 20) 60) warmHue;
          secondary = hslHex (hueArg secondaryHue) 65 60;
          accentHue = map_option (\<lambda>w. js_rem (w + 40) 60) warmHue;
          accent = hslHex (hueArg accentHue) 80 50;
          background = hslHex (hueArg warmHue) 20 95;
          surface = hslHex (hueArg warmHue) 15 98
      in mkPalette primary secondary accent background surface ''#1A1A1A'')"

text \<open>The two adjustments of the seed \<open>sd\<close> at the head of \<^verbatim>\<open>generateCoolPalette\<close>.\<close>

definition coolFold :: "int \<Rightarrow> int" where
  "coolFold sd =
     (let c1 = (if sd < 150 \<or> sd > 330 then 150 + js_rem sd 180 else sd)
      in if c1 < 150 \<or> c1 > 330 then 150 + js_rem c1 180 else c1)"

definition generateCoolPalette :: "int option \<Rightarrow> palette" where
  "generateCoolPalette seedHue =
     (let coolHue = map_option coolFold seedHue;
          primary = hslHex (hueArg coolHue) 65 50;
          secondaryHue = map_option (\<lambda>c. 150 + js_rem (c - 150 + 40) 180) coolHue;
          secondary = hslHex (hueArg secondaryHue) 60 55;
          accentHue = map_option (\<lambda>c. 150 + js_rem (c - 150 + 80) 180) coolHue;
          accent = hslHex (hueArg accentHue) 75 45;
          background = hslHex (hueArg coolHue) 15 96;
          surface = hslHex (hueArg coolHue) 10 99
      in mkPalette primary secondary accent background surface ''#1A1A1A'')"

definition generatePastelPalette :: "int option \<Rightarrow> palette" where
  "generatePastelPalette seedHue =
     (let primary = hslHex (hueArg seedHue) 45 75;
          secondary = hslHex (hueArg (map_option (\<lambda>sd. js_rem (sd + 60) 360) seedHue)) 40 78;
          accent = hslHex (hueArg (map_option (\<lambda>sd. js_rem (sd + 120) 360) seedHue)) 48 72;
          background = hslHex (hueArg seedHue) 25 95;
          surface = hslHex (hueArg seedHue) 20 98
      in mkPalette primary secondary accent background surface ''#2A2A2A'')"

definition generateDarkModePalette :: "int option \<Rightarrow> palette" where
  "generateDarkModePalette seedHue =
     (let primary = hslHex (hueArg seedHue) 70 60;
          secondary = hslHex (hueArg (map_option (\<lambda>sd. js_rem (sd + 30) 360) seedHue)) 65 55;
          accent = hslHex (hueArg (map_option (\<lambda>sd. js_rem (sd + 60) 360) seedHue)) 80 65;
          background = hslHex (hueArg seedHue) 10 12;
          surface = hslHex (hueArg seedHue) 8 18
      in mkPalette primary secondary accent background surface ''#F5F5F5'')"

definition applyProfessionalAdjustments :: "palette \<Rightarrow> palette" where
  "applyProfessionalAdjustments pal =
     pal\<lparr>colors := map (\<lambda>(role', c).
        (role',
         \<lparr>hex = hslToHex (map_option (\<lambda>v.
                   if role' \<noteq> ''text'' \<and> role' \<noteq> ''background'' \<and> role' \<noteq> ''surface''
                   then v\<lparr>s := min (s v) 58\<rparr> else v) (hexToHsl (hex c))),
          role = role c, usage = usage c\<rparr>)) (colors pal)\<rparr>"

definition applyPlayfulAdjustments :: "palette \<Rightarrow> palette" where
  "applyPlayfulAdjustments pal =
     pal\<lparr>colors := map (\<lambda>(role', c).
        (role',
         \<lparr>hex = hslToHex (map_option (\<lambda>v.
                   if role' = ''accent'' \<and> s v \<ge> 50
                   then v\<lparr>s := max (s v) 65, l := max (l v) 52\<rparr> else v) (hexToHsl (hex c))),
          role = role c, usage = usage c\<rparr>)) (colors pal)\<rparr>"

text \<open>
  \<^verbatim>\<open>_generateBaseHue\<close>. The hash is kept in 32-bit two's complement: \<^verbatim>\<open><<\<close> and
  \<^verbatim>\<open>&\<close> convert their result with \<^verbatim>\<open>ToInt32\<close>.
\<close>

definition toInt32 :: "int \<Rightarrow> int" where
  "toInt32 x = (x + 2 ^ 31) mod 2 ^ 32 - 2 ^ 31"

definition hashStep :: "int \<Rightarrow> 16 word \<Rightarrow> int" where
  "hashStep hash c = toInt32 ((toInt32 (hash * 2 ^ 5) - hash) + uint c)"

definition purposeHash :: "16 word list \<Rightarrow> int" where
  "purposeHash str = foldl hashStep 0 str"

definition typeHueMap :: "(string \<times> int) list" where
  "typeHueMap =
     [(''web-dashboard'', 210), (''mobile-app'', 280), (''portfolio'', 180),
      (''e-commerce'', 350), (''saas'', 200), (''professional'', 220), (''playful'', 30)]"

text \<open>
  \<^verbatim>\<open>typeHueMap[appType]\<close> reads a property of an object literal, so a key that is not
  its own is looked up in \<^verbatim>\<open>Object.prototype\<close>. The properties found there are
  functions or objects: they are truthy, so \<^verbatim>\<open>|| 200\<close> keeps them, \<^verbatim>\<open>+\<close> then
  concatenates strings and \<^verbatim>\<open>% 360\<close> yields \<^verbatim>\<open>NaN\<close>.
\<close>

definition objectPrototypeKeys :: "string list" where
  "objectPrototypeKeys =
     [''constructor'', ''hasOwnProperty'', ''isPrototypeOf'', ''propertyIsEnumerable'',
      ''toLocaleString'', ''toString'', ''valueOf'', ''__proto__'', ''__defineGetter__'',
      ''__defineSetter__'', ''__lookupGetter__'', ''__lookupSetter__'']"

definition generateBaseHue :: "string \<Rightarrow> 16 word list \<Rightarrow> int option" where
  "generateBaseHue appTypeStr purposeStr =
     (let hash = purposeHash purposeStr;
          variation = \<bar>js_rem hash 60\<bar> - 30
      in case map_of typeHueMap appTypeStr of
           Some baseHue \<Rightarrow> Some (js_rem (baseHue + variation + 360) 360)
         | None \<Rightarrow>
             if appTypeStr \<in> set objectPrototypeKeys then None
             else Some (js_rem (200 + variation + 360) 360))"

text \<open>The body of the loop of \<^verbatim>\<open>generate\<close> up to the application-type adjustment.\<close>

definition paletteFor :: "preferences \<Rightarrow> int option \<Rightarrow> palette" where
  "paletteFor prefs seed =
     (let p0 = (if colorMood prefs = ''warm'' then generateWarmPalette seed
                else if colorMood prefs = ''cool'' then generateCoolPalette seed
                else if colorMood prefs = ''pastel'' then generatePastelPalette seed
                else if colorMood prefs = ''dark'' then generateDarkModePalette seed
                else generateCoolPalette seed)
      in if appType prefs = ''professional'' \<or> appType prefs = ''web-dashboard''
            \<or> appType prefs = ''saas''
         then applyProfessionalAdjustments p0
         else if appType prefs = ''playful'' \<or> appType prefs = ''mobile-app''
         then applyPlayfulAdjustments p0
         else p0)"

definition seedsOf :: "int option \<Rightarrow> int option list" where
  "seedsOf baseHue =
     [baseHue,
      map_option (\<lambda>x. js_rem (x + 120) 360) baseHue,
      map_option (\<lambda>x. js_rem (x + 240) 360) baseHue]"

text \<open>The palettes that the loop of \<^verbatim>\<open>generate\<close> pushes, one for each seed.\<close>

definition palettesOf :: "preferences \<Rightarrow> palette list" where
  "palettesOf prefs =
     map (\<lambda>seed.
            let p1 = paletteFor prefs seed
            in p1\<lparr>accessiblePairs :=
                    findAccessiblePairs (map (\<lambda>(k, c). (k, ColorObject c)) (colors p1))\<rparr>)
         (seedsOf (generateBaseHue (appType prefs) (purpose prefs)))"

text \<open>
  \<^verbatim>\<open>generate\<close>. Each iteration also calls \<^verbatim>\<open>_generateVibeDescription\<close>, which evaluates
  \<^verbatim>\<open>mood.charAt(0)\<close> on \<^verbatim>\<open>moodDescriptions[colorMood] || 'balanced and harmonious'\<close>.
  When \<^verbatim>\<open>colorMood\<close> names a property inherited from \<^verbatim>\<open>Object.prototype\<close>, \<^verbatim>\<open>mood\<close>
  is a function or an object without \<^verbatim>\<open>charAt\<close>, and the first iteration throws a
  \<^verbatim>\<open>TypeError\<close>. No other step of \<^verbatim>\<open>generate\<close> throws.
\<close>

datatype js_error = TypeError

definition generate :: "preferences \<Rightarrow> js_error + palette list" where
  "generate prefs =
     (if colorMood prefs \<in> set objectPrototypeKeys then Inl TypeError
      else Inr (palettesOf prefs))"

section \<open>Notions of the specification\<close>

definition isHex6 :: "string \<Rightarrow> bool" where
  "isHex6 body = (length body = 6 \<and> list_all (\<lambda>c. digitValue c \<noteq> None) body)"

text \<open>A well-formed hex string: an optional hash sign, then six hexadecimal digits.\<close>

definition wellFormedHex :: "string \<Rightarrow> bool" where
  "wellFormedHex str =
     (isHex6 str \<or> (case str of c # body \<Rightarrow> c = CHR ''#'' \<and> isHex6 body | [] \<Rightarrow> False))"

text \<open>The canonical form: a hash sign and six upper-case hexadecimal digits.\<close>

definition canonicalHex :: "string \<Rightarrow> bool" where
  "canonicalHex str =
     (case str of
        c # body \<Rightarrow> c = CHR ''#'' \<and> length body = 6 \<and> list_all (\<lambda>d. d \<in> set ''0123456789ABCDEF'') body
      | [] \<Rightarrow> False)"

text \<open>A palette of six bare hex strings, black and white only.\<close>

definition bwEntries :: "(string \<times> color_value) list" where
  "bwEntries = [(''primary'', HexString ''#000000''), (''secondary'', HexString ''#000000''),
     (''accent'', HexString ''#000000''), (''background'', HexString ''#FFFFFF''),
     (''surface'', HexString ''#FFFFFF''), (''text'', HexString ''#000000'')]"

text \<open>The base hue of an application type that is a key of \<^verbatim>\<open>typeHueMap\<close>, and the
  fallback 200 otherwise.\<close>

definition typeHue :: "string \<Rightarrow> int" where
  "typeHue a = (case map_of typeHueMap a of Some v \<Rightarrow> v | None \<Rightarrow> 200)"

text \<open>\<^verbatim>\<open>palette.colors.primary.hex\<close>\<close>

definition primaryHex :: "palette \<Rightarrow> string option" where
  "primaryHex pal = map_option hex (map_of (colors pal) ''primary'')"

subsection \<open>Auxiliary notions for the analysis of the conversions\<close>

text \<open>
  The weight that \<^verbatim>\<open>hue2rgb\<close> puts on \<open>q\<close>: \<open>hue2rgb p q t = p + (q - p) * hueWeight t\<close>.
  \<open>hslQ\<close> and \<open>hslP\<close> are the \<open>q\<close> and \<open>p\<close> of \<^verbatim>\<open>hslToRgb\<close>, and \<open>hslChannel\<close>
  is one rounded output channel.
\<close>

definition hueWeight :: "rat \<Rightarrow> rat" where
  "hueWeight t =
     (let t1 = (if t < 0 then t + 1 else t);
          t2 = (if t1 > 1 then t1 - 1 else t1)
      in if t2 < 1 / 6 then 6 * t2
         else if t2 < 1 / 2 then 1
         else if t2 < 2 / 3 then (2 / 3 - t2) * 6
         else 0)"

definition hslQ :: "rat \<Rightarrow> rat \<Rightarrow> rat" where
  "hslQ s' l' = (if l' < 1 / 2 then l' * (1 + s') else l' + s' - l' * s')"

definition hslP :: "rat \<Rightarrow> rat \<Rightarrow> rat" where
  "hslP s' l' = 2 * l' - hslQ s' l'"

definition hslChannel :: "rat \<Rightarrow> rat \<Rightarrow> rat \<Rightarrow> int" where
  "hslChannel sat lig w =
     js_round ((hslP (sat / 100) (lig / 100)
                + (hslQ (sat / 100) (lig / 100) - hslP (sat / 100) (lig / 100)) * w) * 255)"

definition hueOk :: "rat option \<Rightarrow> bool" where
  "hueOk hue = (case hue of None \<Rightarrow> True | Some t \<Rightarrow> 0 \<le> t \<and> t \<le> 360)"

text \<open>
  The unrounded hue and saturation of \<^verbatim>\<open>rgbToHsl\<close> on normalised channels; the
  saturation and lightness that \<^verbatim>\<open>rgbToHsl\<close> reports for integer channels with a given
  maximum and minimum; HSL triples in range; palettes whose hex strings are all canonical;
  seed hues as \<^verbatim>\<open>generate\<close> produces them.
\<close>

definition hueFrac :: "rat \<Rightarrow> rat \<Rightarrow> rat \<Rightarrow> rat" where
  "hueFrac x y z =
     (let mx = max (max x y) z; mn = min (min x y) z; delta = mx - mn
      in if delta \<noteq> 0
         then (if mx = x then ((y - z) / delta + (if y < z then 6 else 0)) / 6
               else if mx = y then ((z - x) / delta + 2) / 6
               else ((x - y) / delta + 4) / 6)
         else 0)"

definition satFrac :: "rat \<Rightarrow> rat \<Rightarrow> rat" where
  "satFrac mx mn =
     (if mx - mn \<noteq> 0
      then (if (mx + mn) / 2 > 1 / 2 then (mx - mn) / (2 - mx - mn) else (mx - mn) / (mx + mn))
      else 0)"

definition measuredSL :: "int \<Rightarrow> int \<Rightarrow> int \<times> int" where
  "measuredSL mx mn =
     (js_round (satFrac (of_int mx / 255) (of_int mn / 255) * 100),
      js_round (((of_int mx :: rat) / 255 + of_int mn / 255) / 2 * 100))"

definition okHsl :: "hsl \<Rightarrow> bool" where
  "okHsl v = (0 \<le> h v \<and> h v \<le> 360 \<and> 0 \<le> s v \<and> s v \<le> 100 \<and> 0 \<le> l v \<and> l v \<le> 100)"

definition paletteCanonical :: "palette \<Rightarrow> bool" where
  "paletteCanonical pal = list_all (\<lambda>kc. canonicalHex (hex (snd kc))) (colors pal)"

definition seedOk :: "int option \<Rightarrow> bool" where
  "seedOk seed = (case seed of None \<Rightarrow> True | Some k \<Rightarrow> 0 \<le> k \<and> k < 360)"

text \<open>
  The chroma \<open>q - p\<close> of \<^verbatim>\<open>hslToRgb\<close>, and the round trip of an RGB triple through
  \<^verbatim>\<open>rgbToHsl\<close> and \<^verbatim>\<open>hslToRgb\<close>.
\<close>

definition chroma :: "rat \<Rightarrow> rat \<Rightarrow> rat" where
  "chroma x y = hslQ x y - hslP x y"

definition hslRoundTrip :: "int \<Rightarrow> int \<Rightarrow> int \<Rightarrow> int rgb" where
  "hslRoundTrip x y z =
     (let v = rgbToHsl (of_int x) (of_int y) (of_int z)
      in hslToRgb (Some (of_int (h v))) (of_int (s v)) (of_int (l v)))"

text \<open>
  Saturation and lightness as \<^verbatim>\<open>rgbToHsl\<close> reads them back from a colour that
  \<^verbatim>\<open>hslToRgb\<close> produced from given saturation and lightness (\<open>reSL\<close>), from a hex string
  (\<open>slOfHex\<close>) and from a role of a palette (\<open>roleSL\<close>); the hex string of a role; the change
  that each adjustment makes to the HSL triple of a role, and to its saturation and lightness.
\<close>

definition reSL :: "int \<Rightarrow> int \<Rightarrow> int \<times> int" where
  "reSL sat lig =
     measuredSL (hslChannel (of_int sat) (of_int lig) 1) (hslChannel (of_int sat) (of_int lig) 0)"

definition slOfHex :: "string \<Rightarrow> (int \<times> int) option" where
  "slOfHex hs = map_option (\<lambda>v. (s v, l v)) (hexToHsl hs)"

definition roleSL :: "palette \<Rightarrow> string \<Rightarrow> (int \<times> int) option" where
  "roleSL pal k = (case map_of (colors pal) k of None \<Rightarrow> None | Some c \<Rightarrow> slOfHex (hex c))"

definition hexAt :: "palette \<Rightarrow> string \<Rightarrow> string option" where
  "hexAt pal k = map_option hex (map_of (colors pal) k)"

definition profAdjust :: "string \<Rightarrow> hsl \<Rightarrow> hsl" where
  "profAdjust k v =
     (if k \<noteq> ''text'' \<and> k \<noteq> ''background'' \<and> k \<noteq> ''surface'' then v\<lparr>s := min (s v) 58\<rparr> else v)"

definition playAdjust :: "string \<Rightarrow> hsl \<Rightarrow> hsl" where
  "playAdjust k v =
     (if k = ''accent'' \<and> s v \<ge> 50 then v\<lparr>s := max (s v) 65, l := max (l v) 52\<rparr> else v)"

definition profSL :: "string \<Rightarrow> int \<times> int \<Rightarrow> int \<times> int" where
  "profSL k p =
     (if k \<noteq> ''text'' \<and> k \<noteq> ''background'' \<and> k \<noteq> ''surface'' then (min (fst p) 58, snd p) else p)"

definition playSL :: "string \<Rightarrow> int \<times> int \<Rightarrow> int \<times> int" where
  "playSL k p = (if k = ''accent'' \<and> fst p \<ge> 50 then (max (fst p) 65, max (snd p) 52) else p)"

section \<open>Hex strings: parsing and printing\<close>

lemma hexchar_table:
  "list_all (\<lambda>(c, d). d < 16 \<and> toUpperChar (hexDigit d) = toUpperChar c \<and> \<not> isWhiteSpace c \<and>
      c \<noteq> CHR ''-'' \<and> c \<noteq> CHR ''+'' \<and> c \<noteq> CHR ''x'' \<and> c \<noteq> CHR ''X'' \<and> c \<noteq> CHR ''#'' \<and>
      toUpperChar c \<in> set ''0123456789ABCDEF'')
     (zip ''0123456789abcdef'' [0 ..< 16] @ zip ''ABCDEF'' [10 ..< 16])"
  by code_simp

lemma hexchar:
  assumes "digitValue c = Some d"
  shows "d < 16" "toUpperChar (hexDigit d) = toUpperChar c"
   "\<not> isWhiteSpace c" "c \<noteq> CHR ''-''" "c \<noteq> CHR ''+''" "c \<noteq> CHR ''x''" "c \<noteq> CHR ''X''" "c \<noteq> CHR ''#''"
   "toUpperChar c \<in> set ''0123456789ABCDEF''"
proof -
  have "(c, d) \<in> set (zip ''0123456789abcdef'' [0 ..< 16] @ zip ''ABCDEF'' [10 ..< 16])"
    using assms unfolding digitValue_def by (rule map_of_SomeD)
  with hexchar_table have "d < 16 \<and> toUpperChar (hexDigit d) = toUpperChar c \<and> \<not> isWhiteSpace c \<and>
      c \<noteq> CHR ''-'' \<and> c \<noteq> CHR ''+'' \<and> c \<noteq> CHR ''x'' \<and> c \<noteq> CHR ''X'' \<and> c \<noteq> CHR ''#'' \<and>
      toUpperChar c \<in> set ''0123456789ABCDEF''"
    unfolding list_all_iff by blast
  then show "d < 16" "toUpperChar (hexDigit d) = toUpperChar c"
   "\<not> isWhiteSpace c" "c \<noteq> CHR ''-''" "c \<noteq> CHR ''+''" "c \<noteq> CHR ''x''" "c \<noteq> CHR ''X''" "c \<noteq> CHR ''#''"
   "toUpperChar c \<in> set ''0123456789ABCDEF''"
    by blast+
qed

lemma js_round_of_int [simp]: "js_round (of_int n :: rat) = n"
  unfolding js_round_def by linarith

lemma toHex_of_int: "0 \<le> n \<Longrightarrow> toHex (of_int n) = padStart 2 (CHR ''0'') (digits16 (nat n))"
  unfolding toHex_def toString16_def js_round_of_int by simp

lemma digits16_byte:
  assumes "x < 16" "y < 16"
  shows "padStart 2 (CHR ''0'') (digits16 (16 * x + y)) = [hexDigit x, hexDigit y]"
proof (cases "x = 0")
  case True
  then show ?thesis using assms
    by (simp add: padStart_def digits16.simps[of y] hexDigit_def)
next
  case False
  then have "digits16 (16 * x + y) = digits16 x @ [hexDigit y]"
    using assms by (subst digits16.simps) simp
  then show ?thesis using assms
    by (simp add: padStart_def digits16.simps[of x])
qed

lemma toHex_byte:
  assumes "x < 16" "y < 16"
  shows "toHex (of_int (int (16 * x + y))) = [hexDigit x, hexDigit y]"
proof -
  have "toHex (of_int (int (16 * x + y))) = padStart 2 (CHR ''0'') (digits16 (nat (int (16 * x + y))))"
    by (rule toHex_of_int) simp
  also have "\<dots> = [hexDigit x, hexDigit y]"
    unfolding nat_int by (rule digits16_byte[OF assms])
  finally show ?thesis .
qed

lemma parse_pair_aux:
  assumes "digitValue c1 = Some d1" "digitValue c2 = Some d2"
   and ws: "\<not> isWhiteSpace c1" and c1: "c1 \<noteq> CHR ''-''" "c1 \<noteq> CHR ''+''" and c2: "c2 \<noteq> CHR ''x''" "c2 \<noteq> CHR ''X''"
  shows "parseInt16 [c1, c2] = Some (int (16 * d1 + d2))"
proof -
  have 1: "dropWhile isWhiteSpace [c1, c2] = [c1, c2]" using ws by simp
  have 2: "stripRadixPrefix [c1, c2] = [c1, c2]" using c2 by (simp add: stripRadixPrefix_def)
  have 3: "readDigits None [c1, c2] = Some (16 * d1 + d2)" using assms(1,2) by simp
  show ?thesis unfolding parseInt16_def 1 Let_def using c1 2 3 by simp
qed

lemma parse_pair:
  assumes "digitValue c1 = Some d1" "digitValue c2 = Some d2"
  shows "parseInt16 [c1, c2] = Some (int (16 * d1 + d2))"
  by (rule parse_pair_aux[OF assms hexchar(3-5)[OF assms(1)] hexchar(6,7)[OF assms(2)]])

lemma isHex6_cases:
  assumes "isHex6 body"
  obtains c1 c2 c3 c4 c5 c6 d1 d2 d3 d4 d5 d6 where
    "body = [c1, c2, c3, c4, c5, c6]"
    "digitValue c1 = Some d1" "digitValue c2 = Some d2" "digitValue c3 = Some d3"
    "digitValue c4 = Some d4" "digitValue c5 = Some d5" "digitValue c6 = Some d6"
proof -
  from assms have len: "length body = 6" and all: "list_all (\<lambda>c. digitValue c \<noteq> None) body"
    by (simp_all add: isHex6_def)
  from len obtain c1 c2 c3 c4 c5 c6 where body: "body = [c1, c2, c3, c4, c5, c6]"
    by (auto simp: length_Suc_conv eval_nat_numeral)
  with all show ?thesis using that by auto
qed

lemma hexToRgb_body:
  assumes "digitValue c1 = Some d1" "digitValue c2 = Some d2" "digitValue c3 = Some d3"
    "digitValue c4 = Some d4" "digitValue c5 = Some d5" "digitValue c6 = Some d6"
    and "hs = [c1, c2, c3, c4, c5, c6] \<or> hs = CHR ''#'' # [c1, c2, c3, c4, c5, c6]"
  shows "hexToRgb hs = \<lparr>r = Some (int (16 * d1 + d2)), g = Some (int (16 * d3 + d4)), b = Some (int (16 * d5 + d6))\<rparr>"
proof -
  have "stripHash hs = [c1, c2, c3, c4, c5, c6]"
    using assms(7) hexchar(8)[OF assms(1)] by (auto simp: stripHash_def)
  then show ?thesis
    by (simp add: hexToRgb_def substring_def parse_pair[OF assms(1,2)] parse_pair[OF assms(3,4)] parse_pair[OF assms(5,6)])
qed

lemma rgbToHex_bytes:
  assumes "digitValue c1 = Some d1" "digitValue c2 = Some d2" "digitValue c3 = Some d3"
    "digitValue c4 = Some d4" "digitValue c5 = Some d5" "digitValue c6 = Some d6"
  shows "rgbToHex (of_int (int (16 * d1 + d2))) (of_int (int (16 * d3 + d4))) (of_int (int (16 * d5 + d6)))
         = CHR ''#'' # toUpperCase [c1, c2, c3, c4, c5, c6]"
  unfolding rgbToHex_def
    toHex_byte[OF hexchar(1)[OF assms(1)] hexchar(1)[OF assms(2)]]
    toHex_byte[OF hexchar(1)[OF assms(3)] hexchar(1)[OF assms(4)]]
    toHex_byte[OF hexchar(1)[OF assms(5)] hexchar(1)[OF assms(6)]]
  by (simp add: toUpperCase_def hexchar(2)[OF assms(1)] hexchar(2)[OF assms(2)] hexchar(2)[OF assms(3)]
      hexchar(2)[OF assms(4)] hexchar(2)[OF assms(5)] hexchar(2)[OF assms(6)])
    (simp add: toUpperChar_def)

text \<open>
  C6. For every well-formed hex string (an optional hash sign, six hexadecimal digits in
  either case), \<^verbatim>\<open>hexToRgb\<close> yields three numeric channels and \<^verbatim>\<open>rgbToHex\<close> applied
  to them returns the hash sign followed by the six digits in upper case.
\<close>

theorem hex_roundtrip:
  assumes "wellFormedHex hs"
  shows "\<exists>body rv gv bv. isHex6 body \<and> (hs = body \<or> hs = CHR ''#'' # body) \<and>
           hexToRgb hs = \<lparr>r = Some rv, g = Some gv, b = Some bv\<rparr> \<and>
           rgbToHex (of_int rv) (of_int gv) (of_int bv) = CHR ''#'' # toUpperCase body"
proof -
  from assms obtain body where body: "isHex6 body" "hs = body \<or> hs = CHR ''#'' # body"
    by (auto simp: wellFormedHex_def split: list.splits)
  from body(1) obtain c1 c2 c3 c4 c5 c6 d1 d2 d3 d4 d5 d6 where
    cs: "body = [c1, c2, c3, c4, c5, c6]" and
    ds: "digitValue c1 = Some d1" "digitValue c2 = Some d2" "digitValue c3 = Some d3"
        "digitValue c4 = Some d4" "digitValue c5 = Some d5" "digitValue c6 = Some d6"
    by (rule isHex6_cases)
  have "hexToRgb hs = \<lparr>r = Some (int (16 * d1 + d2)), g = Some (int (16 * d3 + d4)), b = Some (int (16 * d5 + d6))\<rparr>"
    using body(2) unfolding cs by (rule hexToRgb_body[OF ds])
  moreover have "rgbToHex (of_int (int (16 * d1 + d2))) (of_int (int (16 * d3 + d4))) (of_int (int (16 * d5 + d6)))
         = CHR ''#'' # toUpperCase body"
    unfolding cs by (rule rgbToHex_bytes[OF ds])
  ultimately show ?thesis using body by blast
qed

theorem hex_roundtrip_witness:
  "wellFormedHex ''#ff5733'' \<and>
   (\<exists>body rv gv bv. isHex6 body \<and> (''#ff5733'' = body \<or> ''#ff5733'' = CHR ''#'' # body) \<and>
      hexToRgb ''#ff5733'' = \<lparr>r = Some rv, g = Some gv, b = Some bv\<rparr> \<and>
      rgbToHex (of_int rv) (of_int gv) (of_int bv) = CHR ''#'' # toUpperCase body)"
proof -
  have wf: "wellFormedHex ''#ff5733''" by code_simp
  show ?thesis using wf hex_roundtrip[OF wf] by simp
qed

section \<open>Contrast ratio and accessible pairs\<close>

lemma luminance_body:
  assumes "digitValue c1 = Some d1" "digitValue c2 = Some d2" "digitValue c3 = Some d3"
    "digitValue c4 = Some d4" "digitValue c5 = Some d5" "digitValue c6 = Some d6"
    and "hs = [c1, c2, c3, c4, c5, c6] \<or> hs = CHR ''#'' # [c1, c2, c3, c4, c5, c6]"
  shows "\<exists>v. getRelativeLuminance hs = Some v"
proof -
  have "stripHash hs = [c1, c2, c3, c4, c5, c6]"
    using assms(7) hexchar(8)[OF assms(1)] by (auto simp: stripHash_def)
  then show ?thesis
    by (simp add: getRelativeLuminance_def substring_def parse_pair[OF assms(1,2)]
        parse_pair[OF assms(3,4)] parse_pair[OF assms(5,6)])
qed

lemma luminance_wellFormed:
  assumes "wellFormedHex hs"
  shows "\<exists>v. getRelativeLuminance hs = Some v"
proof -
  from assms obtain body where body: "isHex6 body" "hs = body \<or> hs = CHR ''#'' # body"
    by (auto simp: wellFormedHex_def split: list.splits)
  from body(1) obtain c1 c2 c3 c4 c5 c6 d1 d2 d3 d4 d5 d6 where
    cs: "body = [c1, c2, c3, c4, c5, c6]" and
    ds: "digitValue c1 = Some d1" "digitValue c2 = Some d2" "digitValue c3 = Some d3"
        "digitValue c4 = Some d4" "digitValue c5 = Some d5" "digitValue c6 = Some d6"
    by (rule isHex6_cases)
  show ?thesis using body(2) unfolding cs by (rule luminance_body[OF ds])
qed

lemma contrast_commute: "calculateContrastRatio x y = calculateContrastRatio y x"
  by (simp add: calculateContrastRatio_def max.commute min.commute split: option.splits)

text \<open>
  C8. For every pair of well-formed hex strings, \<^verbatim>\<open>calculateContrastRatio\<close> returns a
  number (not \<^verbatim>\<open>NaN\<close>) and the same number when its two arguments are swapped.
\<close>

theorem contrast_symmetric:
  assumes "wellFormedHex x" "wellFormedHex y"
  shows "\<exists>v. calculateContrastRatio x y = Some v \<and> calculateContrastRatio y x = Some v"
proof -
  from luminance_wellFormed[OF assms(1)] obtain u where u: "getRelativeLuminance x = Some u" ..
  from luminance_wellFormed[OF assms(2)] obtain w where w: "getRelativeLuminance y = Some w" ..
  show ?thesis
    by (simp add: calculateContrastRatio_def u w max.commute min.commute)
qed

lemma luminance_black: "getRelativeLuminance ''#000000'' = Some 0"
proof -
  have d: "digitValue (CHR ''0'') = Some 0" by code_simp
  show ?thesis
    by (simp add: getRelativeLuminance_def Let_def stripHash_def substring_def parse_pair[OF d d] linearize_def)
qed

lemma luminance_white: "getRelativeLuminance ''#FFFFFF'' = Some 1"
proof -
  have d: "digitValue (CHR ''F'') = Some 15" by code_simp
  show ?thesis
    by (simp add: getRelativeLuminance_def Let_def stripHash_def substring_def parse_pair[OF d d] linearize_def)
qed

lemma contrast_black_white:
  "calculateContrastRatio ''#000000'' ''#FFFFFF'' = Some 21"
  "calculateContrastRatio ''#FFFFFF'' ''#000000'' = Some 21"
  "calculateContrastRatio ''#000000'' ''#000000'' = Some 1"
  "calculateContrastRatio ''#FFFFFF'' ''#FFFFFF'' = Some 1"
  by (simp_all add: calculateContrastRatio_def luminance_black luminance_white)

theorem contrast_symmetric_witness:
  "wellFormedHex ''#000000'' \<and> wellFormedHex ''#FFFFFF'' \<and>
   (\<exists>v. calculateContrastRatio ''#000000'' ''#FFFFFF'' = Some v \<and>
        calculateContrastRatio ''#FFFFFF'' ''#000000'' = Some v)"
proof -
  have 1: "wellFormedHex ''#000000''" by code_simp
  have 2: "wellFormedHex ''#FFFFFF''" by code_simp
  show ?thesis using 1 2 contrast_symmetric[OF 1 2] by simp
qed

lemma js_round_mono: "x \<le> y \<Longrightarrow> js_round x \<le> js_round y"
  unfolding js_round_def by (simp add: floor_mono)

lemma round2_floor:
  assumes "(x::real) \<ge> 4.5"
  shows "real_of_int (js_round (x * 100)) / 100 \<ge> 4.5"
proof -
  have "js_round (450 :: real) \<le> js_round (x * 100)" using assms by (intro js_round_mono) simp
  moreover have "js_round (450 :: real) = 450" unfolding js_round_def by linarith
  ultimately have "450 \<le> js_round (x * 100)" by simp
  then have "(450 :: real) \<le> real_of_int (js_round (x * 100))" by linarith
  then show ?thesis by simp
qed

lemma pairAt_elem:
  assumes "p \<in> set (pairAt es i j)"
  shows "\<exists>x. calculateContrastRatio (text_hex p) (background_hex p) = Some x \<and> x \<ge> 4.5 \<and>
             ratio p = of_int (js_round (x * 100)) / 100 \<and> i \<noteq> j \<and>
             text_hex p = hexOf (snd (es ! i)) \<and> background_hex p = hexOf (snd (es ! j))"
proof (cases "calculateContrastRatio (hexOf (snd (es ! i))) (hexOf (snd (es ! j)))")
  case None
  then show ?thesis using assms by (simp add: pairAt_def Let_def split: if_splits)
next
  case (Some x)
  then show ?thesis using assms
    by (simp add: pairAt_def Let_def meetsWCAG_AA_def split: if_splits)
qed

text \<open>
  C4. Every element of \<^verbatim>\<open>findAccessiblePairs\<close> of a palette (of six entries or any other
  number) reports a ratio of at least 4.5; the reported ratio is the contrast ratio of the
  pair's two hex strings rounded to two decimals, and that contrast ratio is itself at
  least 4.5, so a pair below the threshold never appears.
\<close>

theorem accessible_pairs_floor:
  "\<forall>p \<in> set (findAccessiblePairs es).
     ratio p \<ge> 4.5 \<and>
     (\<exists>x. calculateContrastRatio (text_hex p) (background_hex p) = Some x \<and> x \<ge> 4.5 \<and>
          ratio p = of_int (js_round (x * 100)) / 100)"
proof
  fix p assume "p \<in> set (findAccessiblePairs es)"
  then obtain i j where "p \<in> set (pairAt es i j)"
    by (auto simp: findAccessiblePairs_def)
  from pairAt_elem[OF this] obtain x where
    x: "calculateContrastRatio (text_hex p) (background_hex p) = Some x" "x \<ge> 4.5"
       "ratio p = of_int (js_round (x * 100)) / 100" by blast
  from round2_floor[OF x(2)] x show "ratio p \<ge> 4.5 \<and>
     (\<exists>x. calculateContrastRatio (text_hex p) (background_hex p) = Some x \<and> x \<ge> 4.5 \<and>
          ratio p = of_int (js_round (x * 100)) / 100)" by auto
qed

lemma upt6: "[0 ..< 6] = [0, 1, 2, 3, 4, 5]" by (simp add: upt_rec)

lemma js_round_2100: "js_round (2100 :: real) = 2100" unfolding js_round_def by linarith

lemma mem_findAccessiblePairs:
  "i < length es \<Longrightarrow> j < length es \<Longrightarrow> p \<in> set (pairAt es i j) \<Longrightarrow> p \<in> set (findAccessiblePairs es)"
proof -
  assume a: "i < length es" "j < length es" "p \<in> set (pairAt es i j)"
  have "\<exists>x\<in>{0..<length es}. \<exists>y\<in>{0..<length es}. p \<in> set (pairAt es x y)"
  proof (rule bexI[of _ i], rule bexI[of _ j])
    show "p \<in> set (pairAt es i j)" by (rule a(3))
    show "j \<in> {0..<length es}" using a(2) by simp
    show "i \<in> {0..<length es}" using a(1) by simp
  qed
  then show ?thesis by (simp add: findAccessiblePairs_def)
qed

lemma bw_member:
  "\<lparr>text_hex = ''#000000'', background_hex = ''#FFFFFF'', ratio = 21\<rparr> \<in> set (findAccessiblePairs bwEntries)"
proof -
  have e0: "bwEntries ! 0 = (''primary'', HexString ''#000000'')"
    and e3: "bwEntries ! 3 = (''background'', HexString ''#FFFFFF'')"
    and len: "length bwEntries = 6"
    by (simp_all add: bwEntries_def)
  have "pairAt bwEntries 0 3 = [\<lparr>text_hex = ''#000000'', background_hex = ''#FFFFFF'', ratio = 21\<rparr>]"
    unfolding pairAt_def e0 e3
    by (simp add: contrast_black_white meetsWCAG_AA_def js_round_2100)
  then show ?thesis
    by (intro mem_findAccessiblePairs[of 0 _ 3]) (simp_all add: len)
qed

theorem accessible_pairs_floor_witness:
  "\<lparr>text_hex = ''#000000'', background_hex = ''#FFFFFF'', ratio = 21\<rparr> \<in> set (findAccessiblePairs
      [(''primary'', HexString ''#000000''), (''secondary'', HexString ''#000000''),
       (''accent'', HexString ''#000000''), (''background'', HexString ''#FFFFFF''),
       (''surface'', HexString ''#FFFFFF''), (''text'', HexString ''#000000'')]) \<and>
   (21::real) \<ge> 4.5 \<and> calculateContrastRatio ''#000000'' ''#FFFFFF'' = Some 21"
proof -
  have "ratio \<lparr>text_hex = ''#000000'', background_hex = ''#FFFFFF'', ratio = 21\<rparr> \<ge> 4.5"
    using accessible_pairs_floor[of bwEntries] bw_member by blast
  then show ?thesis using bw_member contrast_black_white(1) unfolding bwEntries_def by simp
qed

lemma count_list_concat:
  "count_list (concat xss) x = sum_list (map (\<lambda>xs. count_list xs x) xss)"
  by (induction xss) simp_all

lemma count_findAccessiblePairs:
  "count_list (findAccessiblePairs es) p =
     (\<Sum>i = 0 ..< length es. \<Sum>j = 0 ..< length es. count_list (pairAt es i j) p)"
  unfolding findAccessiblePairs_def count_list_concat map_map comp_def
  by (simp add: interv_sum_list_conv_sum_set_nat)

lemma pairAt_swap:
  "count_list (pairAt es i j) \<lparr>text_hex = x, background_hex = y, ratio = v\<rparr> =
   count_list (pairAt es j i) \<lparr>text_hex = y, background_hex = x, ratio = v\<rparr>"
  unfolding pairAt_def Let_def contrast_commute[of "hexOf (snd (es ! j))"]
  by (auto split: option.splits)

text \<open>
  C10. The list returned by \<^verbatim>\<open>findAccessiblePairs\<close> is closed under swapping text and
  background: a pair occurs in it exactly as often as the pair with the two hex strings
  exchanged and the same ratio.
\<close>

theorem accessible_pairs_swap_closed:
  "count_list (findAccessiblePairs es) \<lparr>text_hex = x, background_hex = y, ratio = v\<rparr> =
   count_list (findAccessiblePairs es) \<lparr>text_hex = y, background_hex = x, ratio = v\<rparr>"
proof -
  let ?n = "length es"
  have "count_list (findAccessiblePairs es) \<lparr>text_hex = x, background_hex = y, ratio = v\<rparr> =
      (\<Sum>i = 0 ..< ?n. \<Sum>j = 0 ..< ?n. count_list (pairAt es j i) \<lparr>text_hex = y, background_hex = x, ratio = v\<rparr>)"
    unfolding count_findAccessiblePairs by (simp only: pairAt_swap[of es _ _ x y v])
  also have "\<dots> = (\<Sum>j = 0 ..< ?n. \<Sum>i = 0 ..< ?n. count_list (pairAt es j i) \<lparr>text_hex = y, background_hex = x, ratio = v\<rparr>)"
    by (rule sum.swap)
  also have "\<dots> = count_list (findAccessiblePairs es) \<lparr>text_hex = y, background_hex = x, ratio = v\<rparr>"
    unfolding count_findAccessiblePairs ..
  finally show ?thesis .
qed

section \<open>Seed hues and the palettes of one call\<close>

lemma js_rem_nonneg: "0 \<le> x \<Longrightarrow> 0 < n \<Longrightarrow> js_rem x n = x mod n"
  by (cases "x = 0") (simp_all add: js_rem_def)

lemma js_rem_abs: "n \<noteq> 0 \<Longrightarrow> \<bar>js_rem x n\<bar> = \<bar>x\<bar> mod \<bar>n\<bar>"
  by (cases "x = 0") (simp_all add: js_rem_def abs_mult abs_sgn_eq)

lemma toInt32_range: "- (2 ^ 31) \<le> toInt32 x \<and> toInt32 x < 2 ^ 31"
proof -
  have "0 \<le> (x + 2 ^ 31) mod 2 ^ 32" "(x + 2 ^ 31) mod 2 ^ 32 < (2 ^ 32 :: int)"
    by simp_all
  then show ?thesis unfolding toInt32_def by simp
qed

lemma toInt32_cong: "toInt32 (toInt32 x + y) = toInt32 (x + y)"
proof -
  have 1: "toInt32 x + y + 2 ^ 31 = (x + 2 ^ 31) mod 2 ^ 32 + y"
    unfolding toInt32_def by simp
  have 2: "((x + 2 ^ 31) mod 2 ^ 32 + y) mod 2 ^ 32 = (x + 2 ^ 31 + y) mod (2 ^ 32 :: int)"
    by (rule mod_add_left_eq)
  have 3: "x + 2 ^ 31 + y = x + y + (2 ^ 31 :: int)"
    by (simp only: add.assoc add.commute)
  have "(toInt32 x + y + 2 ^ 31) mod 2 ^ 32 = (x + y + 2 ^ 31) mod (2 ^ 32 :: int)"
    unfolding 1 2 3 ..
  then show ?thesis unfolding toInt32_def[of "toInt32 x + y"] toInt32_def[of "x + y"] by (simp only:)
qed

text \<open>The hash step of the code is the step \<open>hash * 31 + charCode\<close>, wrapped to 32 bits.\<close>

lemma hashStep_31: "hashStep hash c = toInt32 (hash * 31 + uint c)"
proof -
  have "toInt32 (toInt32 (hash * 2 ^ 5) + (- hash + uint c)) = toInt32 (hash * 2 ^ 5 + (- hash + uint c))"
    by (rule toInt32_cong)
  then show ?thesis unfolding hashStep_def by (simp add: algebra_simps)
qed

lemma variation_range: "- 30 \<le> \<bar>js_rem x 60\<bar> - 30 \<and> \<bar>js_rem x 60\<bar> - 30 \<le> 29"
proof -
  have "\<bar>js_rem x 60\<bar> = \<bar>x\<bar> mod 60" using js_rem_abs[of 60 x] by simp
  moreover have "0 \<le> \<bar>x\<bar> mod 60" "\<bar>x\<bar> mod 60 < 60" by simp_all
  ultimately show ?thesis by linarith
qed

lemma typeHue_range: "0 \<le> typeHue a \<and> typeHue a \<le> 350"
  unfolding typeHue_def typeHueMap_def by simp

lemma generateBaseHue_regular:
  assumes "a \<notin> set objectPrototypeKeys"
  shows "generateBaseHue a p = Some ((typeHue a + (\<bar>js_rem (purposeHash p) 60\<bar> - 30) + 360) mod 360)"
proof -
  let ?v = "\<bar>js_rem (purposeHash p) 60\<bar> - 30"
  have "0 \<le> typeHue a + ?v + 360" using typeHue_range[of a] variation_range[of "purposeHash p"] by linarith
  then have "js_rem (typeHue a + ?v + 360) 360 = (typeHue a + ?v + 360) mod 360"
    by (rule js_rem_nonneg) simp
  then show ?thesis using assms
    by (simp add: generateBaseHue_def Let_def typeHue_def split: option.splits)
qed

lemma generateBaseHue_range:
  assumes "generateBaseHue a p = Some k"
  shows "0 \<le> k \<and> k < 360"
proof (cases "a \<in> set objectPrototypeKeys")
  case True
  have "map_of typeHueMap a = None" using True unfolding typeHueMap_def objectPrototypeKeys_def by auto
  then show ?thesis using assms True by (simp add: generateBaseHue_def Let_def)
next
  case False
  from generateBaseHue_regular[OF False, of p] assms show ?thesis by auto
qed

lemma generateBaseHue_inherited:
  assumes "a \<in> set objectPrototypeKeys"
  shows "generateBaseHue a p = None"
proof -
  have "map_of typeHueMap a = None" using assms unfolding typeHueMap_def objectPrototypeKeys_def by auto
  then show ?thesis using assms by (simp add: generateBaseHue_def Let_def)
qed

text \<open>
  C9, at the input \<^verbatim>\<open>appType = 'constructor'\<close>, \<^verbatim>\<open>purpose = 'x'\<close>: the lookup finds the
  inherited property \<^verbatim>\<open>Object.prototype.constructor\<close>, the fallback 200 is not taken and
  the result is \<^verbatim>\<open>NaN\<close>, not an integer in [0,360). For an application type that is not
  the name of an inherited property the result is as claimed (lemmas
  \<open>generateBaseHue_regular\<close>, \<open>generateBaseHue_range\<close>, \<open>variation_range\<close>,
  \<open>hashStep_31\<close>).
\<close>

theorem baseHue_constructor_nan: "generateBaseHue ''constructor'' [120] = None"
  by (rule generateBaseHue_inherited) (simp add: objectPrototypeKeys_def)

lemma colors_generate:
  "map colors (palettesOf prefs) =
   map (\<lambda>seed. colors (paletteFor prefs seed)) (seedsOf (generateBaseHue (appType prefs) (purpose prefs)))"
  by (simp add: palettesOf_def Let_def)

lemma primaryHex_generate:
  "map primaryHex (palettesOf prefs) =
   map (\<lambda>seed. primaryHex (paletteFor prefs seed)) (seedsOf (generateBaseHue (appType prefs) (purpose prefs)))"
  by (simp add: palettesOf_def Let_def primaryHex_def)

lemma base_portfolio_x: "generateBaseHue ''portfolio'' [120] = Some 150"
  by code_simp

lemma hslHex_30_70_55: "hslHex (Some 30) 70 55 = ''#DD8C3C''"
  by code_simp

lemma warm_primary_30:
  "primaryHex (generateWarmPalette (Some 150)) = Some ''#DD8C3C''"
  "primaryHex (generateWarmPalette (Some 270)) = Some ''#DD8C3C''"
  "primaryHex (generateWarmPalette (Some 30)) = Some ''#DD8C3C''"
  by (simp_all add: generateWarmPalette_def warmFold_def Let_def mkPalette_def primaryHex_def hueArg_def
      js_rem_def hslHex_30_70_55)

lemma warm_primaries_eval:
  "map primaryHex (palettesOf \<lparr>appType = ''portfolio'', purpose = [120], colorMood = ''warm''\<rparr>)
     = [Some ''#DD8C3C'', Some ''#DD8C3C'', Some ''#DD8C3C'']"
  unfolding primaryHex_generate
  by (simp add: base_portfolio_x seedsOf_def js_rem_def paletteFor_def warm_primary_30)

text \<open>
  The warm generator reduces a seed in (60,330) modulo 60, which erases the spread of 120
  degrees between the seeds: at most one of the three seeds lies outside (60,330).
\<close>

lemma warmFold_mod:
  assumes "0 \<le> k" "k < 360"
  shows "warmFold k = (if 60 < k \<and> k < 330 then k mod 60 else k)"
proof -
  have m: "js_rem k 60 = k mod 60" using assms by (simp add: js_rem_nonneg)
  have n: "k mod 60 < 60" "0 \<le> k mod 60" by simp_all
  have mm: "js_rem (k mod 60) 60 = k mod 60" using n by (simp add: js_rem_nonneg)
  show ?thesis
  proof (cases "60 < k \<and> k < 330")
    case True
    then show ?thesis using n by (simp add: warmFold_def Let_def m mm)
  next
    case False
    then show ?thesis by (auto simp add: warmFold_def Let_def)
  qed
qed

lemma warmFold_in:
  assumes "60 < k" "k < 330"
  shows "warmFold k = k mod 60"
  using warmFold_mod[of k] assms by simp

lemma seed_plain:
  assumes "0 \<le> k" "k < 360"
  shows "js_rem k 360 = k"
  using assms js_rem_nonneg[of k 360] by simp

lemma seed_wrap:
  assumes "360 \<le> k" "k < 720"
  shows "js_rem k 360 = k - 360"
proof -
  have "k mod 360 = (k - 360) mod 360" by (simp only: minus_mod_self2)
  also have "\<dots> = k - 360" by (rule mod_pos_pos_trivial) (use assms in linarith)+
  finally show ?thesis using assms js_rem_nonneg[of k 360] by simp
qed

lemma mod60_shift: "(x + 120) mod 60 = x mod (60::int)"
proof -
  have "(x + 2 * 60) mod 60 = x mod 60" by (rule mod_mult_self1)
  then show ?thesis by simp
qed

lemma mod60_shift2: "(x + 240) mod 60 = x mod (60::int)"
proof -
  have "(x + 4 * 60) mod 60 = x mod 60" by (rule mod_mult_self1)
  then show ?thesis by simp
qed

lemma mod60_back: "(x - 120) mod 60 = x mod (60::int)"
  using mod60_shift[of "x - 120"] by simp

lemma mod60_back2: "(x - 240) mod 60 = x mod (60::int)"
  using mod60_shift2[of "x - 240"] by simp

lemma warm_seeds_collide:
  assumes "0 \<le> k" "k < 360"
  shows "warmFold k = warmFold (js_rem (k + 120) 360)
       \<or> warmFold k = warmFold (js_rem (k + 240) 360)
       \<or> warmFold (js_rem (k + 120) 360) = warmFold (js_rem (k + 240) 360)"
proof -
  consider "k \<le> 60" | "60 < k" "k < 210" | "210 \<le> k" "k < 330" | "330 \<le> k" by linarith
  then show ?thesis
  proof cases
    case 1
    have a: "js_rem (k + 120) 360 = k + 120" by (rule seed_plain) (use assms 1 in linarith)+
    have b: "js_rem (k + 240) 360 = k + 240" by (rule seed_plain) (use assms 1 in linarith)+
    have c: "warmFold (k + 120) = (k + 120) mod 60" by (rule warmFold_in) (use assms 1 in linarith)+
    have d: "warmFold (k + 240) = (k + 240) mod 60" by (rule warmFold_in) (use assms 1 in linarith)+
    have "(k + 120) mod 60 = (k + 240) mod 60" by (simp only: mod60_shift mod60_shift2)
    then show ?thesis unfolding a b c d by (intro disjI2)
  next
    case 2
    have a: "js_rem (k + 120) 360 = k + 120" by (rule seed_plain) (use assms 2 in linarith)+
    have c: "warmFold (k + 120) = (k + 120) mod 60" by (rule warmFold_in) (use assms 2 in linarith)+
    have d: "warmFold k = k mod 60" by (rule warmFold_in) (use assms 2 in linarith)+
    have "k mod 60 = (k + 120) mod 60" by (simp only: mod60_shift)
    then show ?thesis unfolding a c d by (intro disjI1)
  next
    case 3
    have "js_rem (k + 240) 360 = k + 240 - 360" by (rule seed_wrap) (use assms 3 in linarith)+
    then have b: "js_rem (k + 240) 360 = k - 120" by linarith
    have c: "warmFold (k - 120) = (k - 120) mod 60" by (rule warmFold_in) (use assms 3 in linarith)+
    have d: "warmFold k = k mod 60" by (rule warmFold_in) (use assms 3 in linarith)+
    have "k mod 60 = (k - 120) mod 60" by (simp only: mod60_back)
    then have "warmFold k = warmFold (js_rem (k + 240) 360)" unfolding b c d .
    then show ?thesis by (intro disjI2 disjI1)
  next
    case 4
    have "js_rem (k + 240) 360 = k + 240 - 360" by (rule seed_wrap) (use assms 4 in linarith)+
    then have b: "js_rem (k + 240) 360 = k - 120" by linarith
    have "js_rem (k + 120) 360 = k + 120 - 360" by (rule seed_wrap) (use assms 4 in linarith)+
    then have a: "js_rem (k + 120) 360 = k - 240" by linarith
    have c: "warmFold (k - 120) = (k - 120) mod 60" by (rule warmFold_in) (use assms 4 in linarith)+
    have d: "warmFold (k - 240) = (k - 240) mod 60" by (rule warmFold_in) (use assms 4 in linarith)+
    have "(k - 240) mod 60 = (k - 120) mod 60" by (simp only: mod60_back mod60_back2)
    then show ?thesis unfolding a b c d by (intro disjI2)
  qed
qed

lemma paletteFor_warm_cong:
  assumes "colorMood prefs = ''warm''" "map_option warmFold s1 = map_option warmFold s2"
  shows "paletteFor prefs s1 = paletteFor prefs s2"
  using assms by (simp add: paletteFor_def generateWarmPalette_def)

lemma warm_primaries_never_distinct:
  assumes "colorMood prefs = ''warm''"
  shows "\<not> distinct (map primaryHex (palettesOf prefs))"
proof (cases "generateBaseHue (appType prefs) (purpose prefs)")
  case None
  then show ?thesis unfolding primaryHex_generate by (simp add: seedsOf_def)
next
  case (Some k)
  from generateBaseHue_range[OF Some] have k: "0 \<le> k" "k < 360" by simp_all
  let ?P = "\<lambda>x. primaryHex (paletteFor prefs (Some x))"
  have c: "?P x = ?P y" if "warmFold x = warmFold y" for x y
    using paletteFor_warm_cong[OF assms, of "Some x" "Some y"] that by simp
  from warm_seeds_collide[OF k] c
  have "?P k = ?P (js_rem (k + 120) 360) \<or> ?P k = ?P (js_rem (k + 240) 360)
       \<or> ?P (js_rem (k + 120) 360) = ?P (js_rem (k + 240) 360)" by blast
  then show ?thesis unfolding primaryHex_generate Some by (auto simp: seedsOf_def)
qed

lemma warm_generate_never_distinct:
  assumes "colorMood prefs = ''warm''"
  shows "\<exists>pals. generate prefs = Inr pals \<and> \<not> distinct (map primaryHex pals)"
proof -
  have "generate prefs = Inr (palettesOf prefs)"
    using assms by (simp add: generate_def objectPrototypeKeys_def)
  then show ?thesis using warm_primaries_never_distinct[OF assms] by simp
qed

text \<open>
  C1, at the input \<^verbatim>\<open>appType = 'portfolio'\<close>, \<^verbatim>\<open>purpose = 'x'\<close>,
  \<^verbatim>\<open>colorMood = 'warm'\<close>: the base hue is 150, the seeds 150, 270 and 30 are all folded
  to the warm hue 30, and the three palettes have the same primary colour. For the warm mood
  two of the three primaries coincide at every input (lemma \<open>warm_generate_never_distinct\<close>).
\<close>

theorem warm_primaries_coincide:
  "map_sum id (map primaryHex)
     (generate \<lparr>appType = ''portfolio'', purpose = [120], colorMood = ''warm''\<rparr>)
     = Inr [Some ''#DD8C3C'', Some ''#DD8C3C'', Some ''#DD8C3C'']"
  by (simp add: generate_def objectPrototypeKeys_def warm_primaries_eval)

lemma reencode_2A: "hslToHex (hexToHsl ''#2A2A2A'') = ''#292929''"
  by code_simp

text \<open>
  C2, at the pastel palette of seed 0: the professional adjustment converts every role
  through HSL and back, also the roles whose saturation it does not cap, and the text colour
  \<^verbatim>\<open>#2A2A2A\<close> comes back as \<^verbatim>\<open>#292929\<close>.
\<close>

theorem professional_changes_text:
  "map_option hex (map_of (colors (generatePastelPalette (Some 0))) ''text'') = Some ''#2A2A2A'' \<and>
   map_option hex (map_of (colors (applyProfessionalAdjustments (generatePastelPalette (Some 0)))) ''text'')
     = Some ''#292929''"
  by (simp add: generatePastelPalette_def applyProfessionalAdjustments_def Let_def mkPalette_def
      reencode_2A option.map_ident)

section \<open>HSL to RGB: range of the channels\<close>

lemma hue2rgb_weight: "hue2rgb p q (Some t) = p + (q - p) * hueWeight t"
  by (simp add: hue2rgb_def hueWeight_def Let_def mult.assoc)

lemma hueWeight_range:
  assumes "- 1 / 3 \<le> t" "t \<le> 4 / 3"
  shows "0 \<le> hueWeight t" "hueWeight t \<le> 1"
  using assms by (auto simp: hueWeight_def Let_def split: if_splits)

lemma hslPQ_range:
  assumes "0 \<le> x" "x \<le> 1" "0 \<le> y" "y \<le> 1"
  shows "0 \<le> hslP x y" "hslP x y \<le> hslQ x y" "hslQ x y \<le> 1"
proof -
  have a: "0 \<le> y * x" using assms by simp
  have b: "y * x \<le> y" using assms by (simp add: mult_left_le)
  have c: "y * x \<le> x" using assms by (simp add: mult_left_le_one_le)
  have "0 \<le> (1 - x) * (1 - y)" using assms by simp
  then have d: "x + y - y * x \<le> 1" by (simp add: algebra_simps)
  show "0 \<le> hslP x y" "hslP x y \<le> hslQ x y" "hslQ x y \<le> 1"
    using a b c d assms unfolding hslP_def hslQ_def
    by (auto simp: algebra_simps split: if_splits)
qed

lemma hslChannel_mono:
  assumes "0 \<le> sat" "sat \<le> 100" "0 \<le> lig" "lig \<le> 100" "w1 \<le> w2"
  shows "hslChannel sat lig w1 \<le> hslChannel sat lig w2"
proof -
  let ?P = "hslP (sat / 100) (lig / 100)" and ?Q = "hslQ (sat / 100) (lig / 100)"
  have "?P \<le> ?Q" using assms by (intro hslPQ_range) simp_all
  then have "(?Q - ?P) * w1 \<le> (?Q - ?P) * w2" using assms(5) by (intro mult_left_mono) simp_all
  then have "(?P + (?Q - ?P) * w1) * 255 \<le> (?P + (?Q - ?P) * w2) * 255" by simp
  then show ?thesis unfolding hslChannel_def by (rule js_round_mono)
qed

lemma hslChannel_range:
  assumes "0 \<le> sat" "sat \<le> 100" "0 \<le> lig" "lig \<le> 100" "0 \<le> w" "w \<le> 1"
  shows "0 \<le> hslChannel sat lig w" "hslChannel sat lig w \<le> 255"
proof -
  let ?P = "hslP (sat / 100) (lig / 100)" and ?Q = "hslQ (sat / 100) (lig / 100)"
  define v where "v = ?P + (?Q - ?P) * w"
  have pq: "0 \<le> ?P" "?P \<le> ?Q" "?Q \<le> 1" using assms by (intro hslPQ_range; simp)+
  have "0 \<le> (?Q - ?P) * w" using pq assms by simp
  moreover have "(?Q - ?P) * w \<le> (?Q - ?P)" using pq assms by (simp add: mult_left_le)
  ultimately have v: "0 \<le> v" "v \<le> 1" using pq unfolding v_def by linarith+
  have c: "hslChannel sat lig w = \<lfloor>v * 255 + 1 / 2\<rfloor>"
    unfolding hslChannel_def js_round_def v_def ..
  have "0 \<le> v * 255 + 1 / 2" using v by linarith
  then show "0 \<le> hslChannel sat lig w" unfolding c by simp
  have "v * 255 + 1 / 2 < 256" using v by linarith
  then have "\<lfloor>v * 255 + 1 / 2\<rfloor> < 256" by (simp add: floor_less_iff)
  then show "hslChannel sat lig w \<le> 255" unfolding c by linarith
qed

lemma hslToRgb_Some:
  "hslToRgb (Some hue) sat lig =
     \<lparr>r = hslChannel sat lig (hueWeight (hue / 360 + 1 / 3)),
      g = hslChannel sat lig (hueWeight (hue / 360)),
      b = hslChannel sat lig (hueWeight (hue / 360 - 1 / 3))\<rparr>"
  by (cases "sat = 0")
     (simp_all add: hslToRgb_def Let_def hue2rgb_weight hslChannel_def hslP_def hslQ_def)

lemma hslToRgb_None:
  "hslToRgb None sat lig =
     \<lparr>r = hslChannel sat lig 0, g = hslChannel sat lig 0, b = hslChannel sat lig 0\<rparr>"
  by (cases "sat = 0")
     (simp_all add: hslToRgb_def Let_def hue2rgb_def hslChannel_def hslP_def hslQ_def)

lemma hslToRgb_range:
  assumes "hueOk hue" "0 \<le> sat" "sat \<le> 100" "0 \<le> lig" "lig \<le> 100"
  shows "0 \<le> r (hslToRgb hue sat lig) \<and> r (hslToRgb hue sat lig) \<le> 255 \<and>
         0 \<le> g (hslToRgb hue sat lig) \<and> g (hslToRgb hue sat lig) \<le> 255 \<and>
         0 \<le> b (hslToRgb hue sat lig) \<and> b (hslToRgb hue sat lig) \<le> 255"
proof (cases hue)
  case None
  then show ?thesis using hslChannel_range[OF assms(2-5), of 0] by (simp add: hslToRgb_None)
next
  case (Some t)
  with assms(1) have t: "0 \<le> t" "t \<le> 360" by (simp_all add: hueOk_def)
  have w: "0 \<le> hueWeight (t / 360 + 1 / 3)" "hueWeight (t / 360 + 1 / 3) \<le> 1"
       "0 \<le> hueWeight (t / 360)" "hueWeight (t / 360) \<le> 1"
       "0 \<le> hueWeight (t / 360 - 1 / 3)" "hueWeight (t / 360 - 1 / 3) \<le> 1"
    using t by (intro hueWeight_range; simp)+
  show ?thesis unfolding Some hslToRgb_Some
    using hslChannel_range[OF assms(2-5) w(1,2)] hslChannel_range[OF assms(2-5) w(3,4)]
      hslChannel_range[OF assms(2-5) w(5,6)] by simp
qed

lemma upperDigit_table:
  "list_all (\<lambda>d. digitValue (toUpperChar (hexDigit d)) = Some d \<and>
       toUpperChar (toUpperChar (hexDigit d)) = toUpperChar (hexDigit d) \<and>
       toUpperChar (hexDigit d) \<in> set ''0123456789ABCDEF'') [0 ..< 16]"
  by code_simp

lemma upperDigit:
  assumes "d < 16"
  shows "digitValue (toUpperChar (hexDigit d)) = Some d"
    "toUpperChar (hexDigit d) \<in> set ''0123456789ABCDEF''"
proof -
  have "d \<in> set [0 ..< 16]" using assms by simp
  with upperDigit_table have "digitValue (toUpperChar (hexDigit d)) = Some d \<and>
       toUpperChar (hexDigit d) \<in> set ''0123456789ABCDEF''"
    unfolding list_all_iff by blast
  then show "digitValue (toUpperChar (hexDigit d)) = Some d"
    "toUpperChar (hexDigit d) \<in> set ''0123456789ABCDEF''" by blast+
qed

lemma toHex_channel:
  assumes "0 \<le> n" "n \<le> 255"
  shows "toHex (of_int n) = [hexDigit (nat n div 16), hexDigit (nat n mod 16)]"
proof -
  have n: "n = int (16 * (nat n div 16) + nat n mod 16)" using assms by simp
  have "nat n div 16 < 16" "nat n mod 16 < 16" using assms by simp_all
  from toHex_byte[OF this] show ?thesis using n by simp
qed

lemma rgbToHex_channels:
  assumes "0 \<le> x" "x \<le> 255" "0 \<le> y" "y \<le> 255" "0 \<le> z" "z \<le> 255"
  shows "canonicalHex (rgbToHex (of_int x) (of_int y) (of_int z))"
    and "hexToRgb (rgbToHex (of_int x) (of_int y) (of_int z)) = \<lparr>r = Some x, g = Some y, b = Some z\<rparr>"
proof -
  define x1 x2 y1 y2 z1 z2 where "x1 = nat x div 16" and "x2 = nat x mod 16" and "y1 = nat y div 16"
    and "y2 = nat y mod 16" and "z1 = nat z div 16" and "z2 = nat z mod 16"
  have lt: "x1 < 16" "x2 < 16" "y1 < 16" "y2 < 16" "z1 < 16" "z2 < 16"
    using assms by (simp_all add: x1_def x2_def y1_def y2_def z1_def z2_def)
  have v: "x = int (16 * x1 + x2)" "y = int (16 * y1 + y2)" "z = int (16 * z1 + z2)"
    using assms by (simp_all add: x1_def x2_def y1_def y2_def z1_def z2_def)
  let ?u = "\<lambda>d. toUpperChar (hexDigit d)"
  have hx: "rgbToHex (of_int x) (of_int y) (of_int z) = CHR ''#'' # [?u x1, ?u x2, ?u y1, ?u y2, ?u z1, ?u z2]"
    unfolding rgbToHex_def toHex_channel[OF assms(1,2)] toHex_channel[OF assms(3,4)] toHex_channel[OF assms(5,6)]
    by (simp add: toUpperCase_def x1_def x2_def y1_def y2_def z1_def z2_def) (simp add: toUpperChar_def)
  show "canonicalHex (rgbToHex (of_int x) (of_int y) (of_int z))"
    unfolding hx canonicalHex_def using upperDigit(2)[OF lt(1)] upperDigit(2)[OF lt(2)] upperDigit(2)[OF lt(3)]
      upperDigit(2)[OF lt(4)] upperDigit(2)[OF lt(5)] upperDigit(2)[OF lt(6)]
    by (simp del: set_simps)
  have "hexToRgb (CHR ''#'' # [?u x1, ?u x2, ?u y1, ?u y2, ?u z1, ?u z2]) =
      \<lparr>r = Some (int (16 * x1 + x2)), g = Some (int (16 * y1 + y2)), b = Some (int (16 * z1 + z2))\<rparr>"
    by (rule hexToRgb_body[OF upperDigit(1)[OF lt(1)] upperDigit(1)[OF lt(2)] upperDigit(1)[OF lt(3)]
          upperDigit(1)[OF lt(4)] upperDigit(1)[OF lt(5)] upperDigit(1)[OF lt(6)]]) simp
  then show "hexToRgb (rgbToHex (of_int x) (of_int y) (of_int z)) = \<lparr>r = Some x, g = Some y, b = Some z\<rparr>"
    unfolding hx using v by (simp only:)
qed

lemma hslHex_props:
  assumes "hueOk hue" "0 \<le> sat" "sat \<le> 100" "0 \<le> lig" "lig \<le> 100"
  shows "canonicalHex (hslHex hue sat lig)"
    and "hexToRgb (hslHex hue sat lig) =
          \<lparr>r = Some (r (hslToRgb hue sat lig)), g = Some (g (hslToRgb hue sat lig)),
           b = Some (b (hslToRgb hue sat lig))\<rparr>"
proof -
  from hslToRgb_range[OF assms] have rg:
    "0 \<le> r (hslToRgb hue sat lig)" "r (hslToRgb hue sat lig) \<le> 255"
    "0 \<le> g (hslToRgb hue sat lig)" "g (hslToRgb hue sat lig) \<le> 255"
    "0 \<le> b (hslToRgb hue sat lig)" "b (hslToRgb hue sat lig) \<le> 255" by blast+
  show "canonicalHex (hslHex hue sat lig)"
    unfolding hslHex_def Let_def by (rule rgbToHex_channels(1)[OF rg])
  show "hexToRgb (hslHex hue sat lig) =
          \<lparr>r = Some (r (hslToRgb hue sat lig)), g = Some (g (hslToRgb hue sat lig)),
           b = Some (b (hslToRgb hue sat lig))\<rparr>"
    unfolding hslHex_def Let_def by (rule rgbToHex_channels(2)[OF rg])
qed

section \<open>RGB to HSL: range of the result, and re-encoding a colour\<close>

lemma rgbToHsl_frac:
  "rgbToHsl x y z =
     \<lparr>h = js_round (hueFrac (x / 255) (y / 255) (z / 255) * 360),
      s = js_round (satFrac (max (max (x / 255) (y / 255)) (z / 255))
                            (min (min (x / 255) (y / 255)) (z / 255)) * 100),
      l = js_round ((max (max (x / 255) (y / 255)) (z / 255)
                     + min (min (x / 255) (y / 255)) (z / 255)) / 2 * 100)\<rparr>"
  unfolding rgbToHsl_def hueFrac_def satFrac_def Let_def by simp

lemma hueFrac_range: "0 \<le> hueFrac x y z \<and> hueFrac x y z \<le> 1"
proof -
  define mx where "mx = max (max x y) z"
  define mn where "mn = min (min x y) z"
  define d where "d = mx - mn"
  show ?thesis
  proof (cases "d = 0")
    case True
    then show ?thesis unfolding hueFrac_def Let_def mx_def[symmetric] mn_def[symmetric] d_def[symmetric] by simp
  next
    case False
    have bounds: "mn \<le> x" "mn \<le> y" "mn \<le> z" "x \<le> mx" "y \<le> mx" "z \<le> mx"
      unfolding mx_def mn_def by simp_all
    then have dpos: "0 < d" using False unfolding d_def by linarith
    have q: "\<And>u v. mn \<le> u \<Longrightarrow> u \<le> mx \<Longrightarrow> mn \<le> v \<Longrightarrow> v \<le> mx \<Longrightarrow> - 1 \<le> (u - v) / d \<and> (u - v) / d \<le> 1"
    proof -
      fix u v assume "mn \<le> u" "u \<le> mx" "mn \<le> v" "v \<le> mx"
      then have "- d \<le> u - v" "u - v \<le> d" unfolding d_def by linarith+
      then show "- 1 \<le> (u - v) / d \<and> (u - v) / d \<le> 1" using dpos
        by (simp add: le_divide_eq divide_le_eq)
    qed
    have neg: "\<And>u v. u < v \<Longrightarrow> (u - v) / d < 0" using dpos by (simp add: divide_neg_pos)
    have nonneg: "\<And>u v. \<not> u < v \<Longrightarrow> 0 \<le> (u - v) / d" using dpos by simp
    show ?thesis
      unfolding hueFrac_def Let_def mx_def[symmetric] mn_def[symmetric] d_def[symmetric]
      using False q[OF bounds(2,5,3,6)] q[OF bounds(3,6,1,4)] q[OF bounds(1,4,2,5)] neg[of y z] nonneg[of y z]
      by (auto split: if_splits)
  qed
qed

lemma satFrac_range:
  assumes "0 \<le> mn" "mn \<le> mx" "mx \<le> 1"
  shows "0 \<le> satFrac mx mn \<and> satFrac mx mn \<le> 1"
proof (cases "mx - mn = 0")
  case True
  then show ?thesis by (simp add: satFrac_def)
next
  case False
  then have lt: "mn < mx" using assms by linarith
  show ?thesis
  proof (cases "(mx + mn) / 2 > 1 / 2")
    case True
    have "0 < 2 - mx - mn" using lt assms by linarith
    moreover have "mx - mn \<le> 2 - mx - mn" using assms by linarith
    moreover have "0 \<le> mx - mn" using lt by linarith
    ultimately have "0 \<le> (mx - mn) / (2 - mx - mn) \<and> (mx - mn) / (2 - mx - mn) \<le> 1"
      by (simp add: divide_le_eq)
    then show ?thesis using True False by (simp add: satFrac_def)
  next
    case F2: False
    have "0 < mx + mn" using lt assms by linarith
    moreover have "mx - mn \<le> mx + mn" using assms by linarith
    moreover have "0 \<le> mx - mn" using lt by linarith
    ultimately have "0 \<le> (mx - mn) / (mx + mn) \<and> (mx - mn) / (mx + mn) \<le> 1"
      by (simp add: divide_le_eq)
    then show ?thesis using F2 False by (simp add: satFrac_def)
  qed
qed

lemma js_round_scale_range:
  assumes "0 \<le> (v :: rat)" "v \<le> 1" "0 \<le> n"
  shows "0 \<le> js_round (v * of_int n) \<and> js_round (v * of_int n) \<le> n"
proof -
  have "0 \<le> v * of_int n" using assms by simp
  then have "0 \<le> v * of_int n + 1 / 2" by linarith
  then have 1: "0 \<le> js_round (v * of_int n)" unfolding js_round_def by simp
  have "v * of_int n \<le> 1 * of_int n" using assms by (intro mult_right_mono) simp_all
  then have "v * of_int n + 1 / 2 < of_int (n + 1)" by simp
  then have "js_round (v * of_int n) < n + 1" unfolding js_round_def by (simp only: floor_less_iff)
  with 1 show ?thesis by linarith
qed

lemma rgbToHsl_range:
  assumes "0 \<le> x" "x \<le> 255" "0 \<le> y" "y \<le> 255" "0 \<le> z" "z \<le> 255"
  shows "okHsl (rgbToHsl x y z)"
proof -
  define mx where "mx = max (max (x / 255) (y / 255)) (z / 255)"
  define mn where "mn = min (min (x / 255) (y / 255)) (z / 255)"
  have m: "0 \<le> mn" "mn \<le> mx" "mx \<le> 1" using assms unfolding mx_def mn_def by (simp_all add: min_def max_def)
  have hh: "0 \<le> js_round (hueFrac (x / 255) (y / 255) (z / 255) * of_int 360) \<and>
            js_round (hueFrac (x / 255) (y / 255) (z / 255) * of_int 360) \<le> 360"
    using hueFrac_range[of "x / 255" "y / 255" "z / 255"] by (intro js_round_scale_range) simp_all
  have ss: "0 \<le> js_round (satFrac mx mn * of_int 100) \<and> js_round (satFrac mx mn * of_int 100) \<le> 100"
    using satFrac_range[OF m] by (intro js_round_scale_range) simp_all
  have "0 \<le> (mx + mn) / 2" "(mx + mn) / 2 \<le> 1" using m by simp_all
  then have ll: "0 \<le> js_round ((mx + mn) / 2 * of_int 100) \<and> js_round ((mx + mn) / 2 * of_int 100) \<le> 100"
    by (intro js_round_scale_range) simp_all
  show ?thesis unfolding okHsl_def rgbToHsl_frac mx_def[symmetric] mn_def[symmetric]
    using hh ss ll by simp
qed

lemma canonical_digit_table:
  "list_all (\<lambda>c. digitValue c \<noteq> None \<and> c \<noteq> CHR ''#'') ''0123456789ABCDEF''"
  by code_simp

lemma canonical_isHex6:
  assumes "canonicalHex hs"
  shows "\<exists>body. hs = CHR ''#'' # body \<and> isHex6 body"
proof -
  from assms obtain body where hs: "hs = CHR ''#'' # body" and len: "length body = 6"
    and all: "list_all (\<lambda>d. d \<in> set ''0123456789ABCDEF'') body"
    by (auto simp: canonicalHex_def split: list.splits)
  have "\<And>c. c \<in> set ''0123456789ABCDEF'' \<Longrightarrow> digitValue c \<noteq> None"
    using canonical_digit_table unfolding list_all_iff by blast
  with all have "list_all (\<lambda>c. digitValue c \<noteq> None) body" unfolding list_all_iff by blast
  with len hs show ?thesis by (simp add: isHex6_def)
qed

lemma canonical_hexToRgb:
  assumes "canonicalHex hs"
  shows "\<exists>x y z. hexToRgb hs = \<lparr>r = Some x, g = Some y, b = Some z\<rparr> \<and>
           0 \<le> x \<and> x \<le> 255 \<and> 0 \<le> y \<and> y \<le> 255 \<and> 0 \<le> z \<and> z \<le> 255"
proof -
  from canonical_isHex6[OF assms] obtain body where hs: "hs = CHR ''#'' # body" and "isHex6 body" by blast
  from this(2) obtain c1 c2 c3 c4 c5 c6 d1 d2 d3 d4 d5 d6 where
    cs: "body = [c1, c2, c3, c4, c5, c6]" and
    ds: "digitValue c1 = Some d1" "digitValue c2 = Some d2" "digitValue c3 = Some d3"
        "digitValue c4 = Some d4" "digitValue c5 = Some d5" "digitValue c6 = Some d6"
    by (rule isHex6_cases)
  have "hexToRgb hs = \<lparr>r = Some (int (16 * d1 + d2)), g = Some (int (16 * d3 + d4)), b = Some (int (16 * d5 + d6))\<rparr>"
    by (rule hexToRgb_body[OF ds]) (simp add: hs cs)
  moreover have "d1 < 16" "d2 < 16" "d3 < 16" "d4 < 16" "d5 < 16" "d6 < 16"
    using ds by (auto dest: hexchar(1))
  ultimately show ?thesis by auto
qed

lemma canonical_hexToHsl:
  assumes "canonicalHex hs"
  shows "\<exists>v. hexToHsl hs = Some v \<and> okHsl v"
proof -
  from canonical_hexToRgb[OF assms] obtain x y z where
    rgb: "hexToRgb hs = \<lparr>r = Some x, g = Some y, b = Some z\<rparr>"
    and rg: "0 \<le> x" "x \<le> 255" "0 \<le> y" "y \<le> 255" "0 \<le> z" "z \<le> 255" by blast
  have "okHsl (rgbToHsl (of_int x) (of_int y) (of_int z))"
    using rg by (intro rgbToHsl_range) simp_all
  then show ?thesis by (simp add: hexToHsl_def rgb)
qed

lemma hslToHex_canonical:
  assumes "okHsl v"
  shows "canonicalHex (hslToHex (Some v))"
  unfolding hslToHex_def option.case
  using assms by (intro hslHex_props(1)) (simp_all add: okHsl_def hueOk_def)

lemma reencode_canonical:
  assumes "canonicalHex hs" and f: "\<And>v. okHsl v \<Longrightarrow> okHsl (f v)"
  shows "canonicalHex (hslToHex (map_option f (hexToHsl hs)))"
proof -
  from canonical_hexToHsl[OF assms(1)] obtain v where v: "hexToHsl hs = Some v" "okHsl v" by blast
  show ?thesis unfolding v(1) option.map by (rule hslToHex_canonical[OF f[OF v(2)]])
qed

lemma professional_canonical:
  assumes "paletteCanonical pal"
  shows "paletteCanonical (applyProfessionalAdjustments pal)"
proof -
  have "\<And>k c. canonicalHex (hex c) \<Longrightarrow> canonicalHex (hslToHex (map_option (\<lambda>v.
                   if k \<noteq> ''text'' \<and> k \<noteq> ''background'' \<and> k \<noteq> ''surface''
                   then v\<lparr>s := min (s v) 58\<rparr> else v) (hexToHsl (hex c))))"
    by (rule reencode_canonical) (auto simp: okHsl_def)
  then show ?thesis using assms
    unfolding paletteCanonical_def applyProfessionalAdjustments_def list_all_iff
    by (auto simp: case_prod_beta)
qed

lemma playful_canonical:
  assumes "paletteCanonical pal"
  shows "paletteCanonical (applyPlayfulAdjustments pal)"
proof -
  have "\<And>k c. canonicalHex (hex c) \<Longrightarrow> canonicalHex (hslToHex (map_option (\<lambda>v.
                   if k = ''accent'' \<and> s v \<ge> 50
                   then v\<lparr>s := max (s v) 65, l := max (l v) 52\<rparr> else v) (hexToHsl (hex c))))"
    by (rule reencode_canonical) (auto simp: okHsl_def)
  then show ?thesis using assms
    unfolding paletteCanonical_def applyPlayfulAdjustments_def list_all_iff
    by (auto simp: case_prod_beta)
qed

lemma mkPalette_canonical:
  assumes "canonicalHex a1" "canonicalHex a2" "canonicalHex a3" "canonicalHex a4" "canonicalHex a5"
    "canonicalHex a6"
  shows "paletteCanonical (mkPalette a1 a2 a3 a4 a5 a6)"
  using assms by (simp add: paletteCanonical_def mkPalette_def)

lemma text_constants_canonical:
  "canonicalHex ''#1A1A1A''" "canonicalHex ''#2A2A2A''" "canonicalHex ''#F5F5F5''"
  by code_simp+

lemma hueArg_ok:
  assumes "\<And>k. seed = Some k \<Longrightarrow> 0 \<le> f k \<and> f k \<le> 360"
  shows "hueOk (hueArg (map_option f seed))"
  using assms by (cases seed) (simp_all add: hueOk_def hueArg_def)

lemma js_rem_range: "0 \<le> x \<Longrightarrow> 0 < n \<Longrightarrow> 0 \<le> js_rem x n \<and> js_rem x n < n"
  by (simp add: js_rem_nonneg)

section \<open>Every generated colour is a canonical hex string\<close>

lemma hueOk_hueArg:
  "hueOk (hueArg x) = (case x of None \<Rightarrow> True | Some k \<Rightarrow> 0 \<le> k \<and> k \<le> 360)"
  by (cases x) (simp_all add: hueOk_def hueArg_def)

lemma warmFold_range:
  assumes "0 \<le> k" "k < 360"
  shows "0 \<le> warmFold k \<and> warmFold k < 360"
  using assms by (auto simp: warmFold_def Let_def js_rem_nonneg)

lemma coolFold_range:
  assumes "0 \<le> k" "k < 360"
  shows "150 \<le> coolFold k \<and> coolFold k \<le> 330"
proof -
  have 1: "js_rem k 180 = k mod 180" using assms by (simp add: js_rem_nonneg)
  have 2: "k < 150 \<Longrightarrow> k mod 180 = k" using assms by simp
  have 3: "330 < k \<Longrightarrow> k mod 180 = k - 180" using assms by presburger
  show ?thesis using assms 2 3 unfolding coolFold_def Let_def 1 by auto
qed

lemma shifted_rem_range:
  assumes "0 \<le> k + d" "0 < n"
  shows "0 \<le> js_rem (k + d) n \<and> js_rem (k + d) n < n"
  using assms by (simp add: js_rem_nonneg)

lemma warm_canonical:
  assumes "seedOk seed"
  shows "paletteCanonical (generateWarmPalette seed)"
proof (cases seed)
  case None
  show ?thesis unfolding generateWarmPalette_def Let_def None
    by (intro mkPalette_canonical hslHex_props(1) text_constants_canonical)
       (simp_all add: hueOk_hueArg)
next
  case (Some k)
  with assms have k: "0 \<le> k" "k < 360" by (simp_all add: seedOk_def)
  note w = warmFold_range[OF k]
  have 1: "0 \<le> js_rem (warmFold k + 20) 60 \<and> js_rem (warmFold k + 20) 60 < 60"
    using w by (intro shifted_rem_range) simp_all
  have 2: "0 \<le> js_rem (warmFold k + 40) 60 \<and> js_rem (warmFold k + 40) 60 < 60"
    using w by (intro shifted_rem_range) simp_all
  show ?thesis unfolding generateWarmPalette_def Let_def Some
    using w 1 2
    by (intro mkPalette_canonical hslHex_props(1) text_constants_canonical)
       (simp_all add: hueOk_hueArg)
qed

lemma cool_canonical:
  assumes "seedOk seed"
  shows "paletteCanonical (generateCoolPalette seed)"
proof (cases seed)
  case None
  show ?thesis unfolding generateCoolPalette_def Let_def None
    by (intro mkPalette_canonical hslHex_props(1) text_constants_canonical)
       (simp_all add: hueOk_hueArg)
next
  case (Some k)
  with assms have k: "0 \<le> k" "k < 360" by (simp_all add: seedOk_def)
  note c = coolFold_range[OF k]
  have 1: "0 \<le> js_rem (coolFold k - 150 + 40) 180 \<and> js_rem (coolFold k - 150 + 40) 180 < 180"
    using c by (intro shifted_rem_range) simp_all
  have 2: "0 \<le> js_rem (coolFold k - 150 + 80) 180 \<and> js_rem (coolFold k - 150 + 80) 180 < 180"
    using c by (intro shifted_rem_range) simp_all
  show ?thesis unfolding generateCoolPalette_def Let_def Some
    using c 1 2
    by (intro mkPalette_canonical hslHex_props(1) text_constants_canonical)
       (simp_all add: hueOk_hueArg)
qed

lemma pastel_canonical:
  assumes "seedOk seed"
  shows "paletteCanonical (generatePastelPalette seed)"
proof (cases seed)
  case None
  show ?thesis unfolding generatePastelPalette_def Let_def None
    by (intro mkPalette_canonical hslHex_props(1) text_constants_canonical)
       (simp_all add: hueOk_hueArg)
next
  case (Some k)
  with assms have k: "0 \<le> k" "k < 360" by (simp_all add: seedOk_def)
  have 1: "0 \<le> js_rem (k + 60) 360 \<and> js_rem (k + 60) 360 < 360"
    using k by (intro shifted_rem_range) simp_all
  have 2: "0 \<le> js_rem (k + 120) 360 \<and> js_rem (k + 120) 360 < 360"
    using k by (intro shifted_rem_range) simp_all
  show ?thesis unfolding generatePastelPalette_def Let_def Some
    using k 1 2
    by (intro mkPalette_canonical hslHex_props(1) text_constants_canonical)
       (simp_all add: hueOk_hueArg)
qed

lemma dark_canonical:
  assumes "seedOk seed"
  shows "paletteCanonical (generateDarkModePalette seed)"
proof (cases seed)
  case None
  show ?thesis unfolding generateDarkModePalette_def Let_def None
    by (intro mkPalette_canonical hslHex_props(1) text_constants_canonical)
       (simp_all add: hueOk_hueArg)
next
  case (Some k)
  with assms have k: "0 \<le> k" "k < 360" by (simp_all add: seedOk_def)
  have 1: "0 \<le> js_rem (k + 30) 360 \<and> js_rem (k + 30) 360 < 360"
    using k by (intro shifted_rem_range) simp_all
  have 2: "0 \<le> js_rem (k + 60) 360 \<and> js_rem (k + 60) 360 < 360"
    using k by (intro shifted_rem_range) simp_all
  show ?thesis unfolding generateDarkModePalette_def Let_def Some
    using k 1 2
    by (intro mkPalette_canonical hslHex_props(1) text_constants_canonical)
       (simp_all add: hueOk_hueArg)
qed

lemma paletteFor_canonical:
  assumes "seedOk seed"
  shows "paletteCanonical (paletteFor prefs seed)"
  unfolding paletteFor_def Let_def
  using warm_canonical[OF assms] cool_canonical[OF assms] pastel_canonical[OF assms]
    dark_canonical[OF assms]
  by (auto intro: professional_canonical playful_canonical)

lemma seedsOf_ok:
  assumes "seed \<in> set (seedsOf (generateBaseHue a p))"
  shows "seedOk seed"
proof (cases "generateBaseHue a p")
  case None
  then show ?thesis using assms by (auto simp: seedsOf_def seedOk_def)
next
  case (Some k)
  from generateBaseHue_range[OF Some] have k: "0 \<le> k" "k < 360" by simp_all
  have "0 \<le> js_rem (k + 120) 360 \<and> js_rem (k + 120) 360 < 360"
       "0 \<le> js_rem (k + 240) 360 \<and> js_rem (k + 240) 360 < 360"
    using k by (intro shifted_rem_range; simp)+
  then show ?thesis using assms k unfolding Some seedsOf_def by (auto simp: seedOk_def)
qed

lemma length_colors_mkPalette: "length (colors (mkPalette a1 a2 a3 a4 a5 a6)) = 6"
  by (simp add: mkPalette_def)

lemma length_colors_paletteFor: "length (colors (paletteFor prefs seed)) = 6"
  by (simp add: paletteFor_def Let_def generateWarmPalette_def generateCoolPalette_def
      generatePastelPalette_def generateDarkModePalette_def length_colors_mkPalette
      applyProfessionalAdjustments_def applyPlayfulAdjustments_def)

lemma palettesOf_hex_canonical:
  "length (palettesOf prefs) = 3 \<and>
   (\<forall>pal \<in> set (palettesOf prefs).
      length (colors pal) = 6 \<and> (\<forall>kc \<in> set (colors pal). canonicalHex (hex (snd kc)))) \<and>
   (\<forall>hue sat lig. 0 \<le> hue \<and> hue \<le> 360 \<and> 0 \<le> sat \<and> sat \<le> 100 \<and> 0 \<le> lig \<and> lig \<le> 100 \<longrightarrow>
      0 \<le> r (hslToRgb (Some hue) sat lig) \<and> r (hslToRgb (Some hue) sat lig) \<le> 255 \<and>
      0 \<le> g (hslToRgb (Some hue) sat lig) \<and> g (hslToRgb (Some hue) sat lig) \<le> 255 \<and>
      0 \<le> b (hslToRgb (Some hue) sat lig) \<and> b (hslToRgb (Some hue) sat lig) \<le> 255) \<and>
   (\<forall>n. 0 \<le> n \<and> n \<le> 255 \<longrightarrow>
      toHex (of_int n) = [hexDigit (nat n div 16), hexDigit (nat n mod 16)])"
proof (intro conjI ballI allI impI)
  show "length (palettesOf prefs) = 3" by (simp add: palettesOf_def seedsOf_def)
next
  fix pal assume "pal \<in> set (palettesOf prefs)"
  then obtain seed where seed: "seed \<in> set (seedsOf (generateBaseHue (appType prefs) (purpose prefs)))"
    and pal: "colors pal = colors (paletteFor prefs seed)"
    by (auto simp: palettesOf_def Let_def)
  show "length (colors pal) = 6" unfolding pal by (rule length_colors_paletteFor)
  fix kc assume "kc \<in> set (colors pal)"
  moreover have "paletteCanonical (paletteFor prefs seed)"
    by (rule paletteFor_canonical[OF seedsOf_ok[OF seed]])
  ultimately show "canonicalHex (hex (snd kc))"
    unfolding pal paletteCanonical_def list_all_iff by blast
next
  fix hue sat lig :: rat
  assume a: "0 \<le> hue \<and> hue \<le> 360 \<and> 0 \<le> sat \<and> sat \<le> 100 \<and> 0 \<le> lig \<and> lig \<le> 100"
  then have "hueOk (Some hue)" by (simp add: hueOk_def)
  from hslToRgb_range[OF this, of sat lig] a
  show "0 \<le> r (hslToRgb (Some hue) sat lig)" "r (hslToRgb (Some hue) sat lig) \<le> 255"
      "0 \<le> g (hslToRgb (Some hue) sat lig)" "g (hslToRgb (Some hue) sat lig) \<le> 255"
      "0 \<le> b (hslToRgb (Some hue) sat lig)" "b (hslToRgb (Some hue) sat lig) \<le> 255"
    by blast+
next
  fix n :: int assume "0 \<le> n \<and> n \<le> 255"
  then show "toHex (of_int n) = [hexDigit (nat n div 16), hexDigit (nat n mod 16)]"
    by (intro toHex_channel) simp_all
qed

text \<open>
  C5. \<^verbatim>\<open>generate\<close> returns whenever the colour mood is not the name of an inherited
  property, and whenever it returns, the result is three palettes of six colours each in which
  every hex field is the hash sign followed by six upper-case hexadecimal digits (also when
  the seed hue is \<^verbatim>\<open>NaN\<close>). In particular \<^verbatim>\<open>hslToRgb\<close> on a hue in [0,360] and
  saturation and lightness in [0,100] yields channels in [0,255], and \<^verbatim>\<open>rgbToHex\<close>
  formats every such channel as exactly two hexadecimal digits.
\<close>

theorem generate_hex_canonical:
  "(colorMood prefs \<notin> set objectPrototypeKeys \<longrightarrow> (\<exists>pals. generate prefs = Inr pals)) \<and>
   (\<forall>pals. generate prefs = Inr pals \<longrightarrow>
      length pals = 3 \<and>
      (\<forall>pal \<in> set pals.
         length (colors pal) = 6 \<and> (\<forall>kc \<in> set (colors pal). canonicalHex (hex (snd kc))))) \<and>
   (\<forall>hue sat lig. 0 \<le> hue \<and> hue \<le> 360 \<and> 0 \<le> sat \<and> sat \<le> 100 \<and> 0 \<le> lig \<and> lig \<le> 100 \<longrightarrow>
      0 \<le> r (hslToRgb (Some hue) sat lig) \<and> r (hslToRgb (Some hue) sat lig) \<le> 255 \<and>
      0 \<le> g (hslToRgb (Some hue) sat lig) \<and> g (hslToRgb (Some hue) sat lig) \<le> 255 \<and>
      0 \<le> b (hslToRgb (Some hue) sat lig) \<and> b (hslToRgb (Some hue) sat lig) \<le> 255) \<and>
   (\<forall>n. 0 \<le> n \<and> n \<le> 255 \<longrightarrow>
      toHex (of_int n) = [hexDigit (nat n div 16), hexDigit (nat n mod 16)])"
proof -
  note a = palettesOf_hex_canonical[of prefs]
  have ret: "colorMood prefs \<notin> set objectPrototypeKeys \<longrightarrow> (\<exists>pals. generate prefs = Inr pals)"
    by (simp add: generate_def)
  have res: "\<forall>pals. generate prefs = Inr pals \<longrightarrow>
      length pals = 3 \<and>
      (\<forall>pal \<in> set pals.
         length (colors pal) = 6 \<and> (\<forall>kc \<in> set (colors pal). canonicalHex (hex (snd kc))))"
  proof (intro allI impI)
    fix pals assume "generate prefs = Inr pals"
    then have "pals = palettesOf prefs" by (simp add: generate_def split: if_splits)
    then show "length pals = 3 \<and>
      (\<forall>pal \<in> set pals.
         length (colors pal) = 6 \<and> (\<forall>kc \<in> set (colors pal). canonicalHex (hex (snd kc))))"
      using a by blast
  qed
  from a have rest: "(\<forall>hue sat lig. 0 \<le> hue \<and> hue \<le> 360 \<and> 0 \<le> sat \<and> sat \<le> 100 \<and> 0 \<le> lig \<and> lig \<le> 100 \<longrightarrow>
      0 \<le> r (hslToRgb (Some hue) sat lig) \<and> r (hslToRgb (Some hue) sat lig) \<le> 255 \<and>
      0 \<le> g (hslToRgb (Some hue) sat lig) \<and> g (hslToRgb (Some hue) sat lig) \<le> 255 \<and>
      0 \<le> b (hslToRgb (Some hue) sat lig) \<and> b (hslToRgb (Some hue) sat lig) \<le> 255) \<and>
   (\<forall>n. 0 \<le> n \<and> n \<le> 255 \<longrightarrow>
      toHex (of_int n) = [hexDigit (nat n div 16), hexDigit (nat n mod 16)])"
    by (elim conjE) (intro conjI)
  from ret res rest show ?thesis by (intro conjI) (erule conjunct1 conjunct2 | assumption)+
qed

theorem generate_hex_canonical_witness:
  "colorMood \<lparr>appType = ''portfolio'', purpose = [120], colorMood = ''warm''\<rparr> \<notin> set objectPrototypeKeys \<and>
   (\<exists>pals. generate \<lparr>appType = ''portfolio'', purpose = [120], colorMood = ''warm''\<rparr> = Inr pals \<and>
      length pals = 3 \<and> hd pals \<in> set pals \<and>
      (\<exists>c. (''primary'', c) \<in> set (colors (hd pals)) \<and> hex c = ''#DD8C3C'')) \<and>
   canonicalHex ''#DD8C3C'' \<and>
   (0::rat) \<le> 30 \<and> (30::rat) \<le> 360 \<and> (0::rat) \<le> 70 \<and> (70::rat) \<le> 100 \<and> (0::rat) \<le> 55 \<and> (55::rat) \<le> 100 \<and>
   r (hslToRgb (Some 30) 70 55) \<le> 255 \<and>
   (0::int) \<le> 221 \<and> (221::int) \<le> 255 \<and> toHex (of_int 221) = ''dd''"
proof -
  let ?prefs = "\<lparr>appType = ''portfolio'', purpose = [120], colorMood = ''warm''\<rparr>"
  note inst = generate_hex_canonical[of ?prefs]
  have mood: "colorMood ?prefs \<notin> set objectPrototypeKeys" by (simp add: objectPrototypeKeys_def)
  with inst obtain pals where g: "generate ?prefs = Inr pals" by blast
  with inst have len: "length pals = 3"
    and all: "\<forall>pal \<in> set pals. length (colors pal) = 6 \<and> (\<forall>kc \<in> set (colors pal). canonicalHex (hex (snd kc)))"
    by blast+
  from len have ne: "pals \<noteq> []" by auto
  then have mem: "hd pals \<in> set pals" by simp
  from g mood have eq: "pals = palettesOf ?prefs" by (simp add: generate_def)
  have "primaryHex (hd pals) = Some ''#DD8C3C''"
    using warm_primaries_eval ne unfolding eq by (cases "palettesOf ?prefs") auto
  then obtain c where c: "map_of (colors (hd pals)) ''primary'' = Some c" "hex c = ''#DD8C3C''"
    by (auto simp: primaryHex_def)
  from map_of_SomeD[OF c(1)] have cm: "(''primary'', c) \<in> set (colors (hd pals))" .
  from all mem cm have "canonicalHex (hex (snd (''primary'', c)))" by blast
  then have can: "canonicalHex ''#DD8C3C''" using c(2) by simp
  from inst have rr: "r (hslToRgb (Some 30) 70 55) \<le> 255" by simp
  from inst have t: "\<And>n. 0 \<le> n \<and> n \<le> 255 \<Longrightarrow>
      toHex (of_int n) = [hexDigit (nat n div 16), hexDigit (nat n mod 16)]" by blast
  have th: "toHex (of_int 221) = ''dd''" using t[of 221] by (simp add: hexDigit_def)
  have ex: "\<exists>pals. generate ?prefs = Inr pals \<and>
      length pals = 3 \<and> hd pals \<in> set pals \<and>
      (\<exists>c. (''primary'', c) \<in> set (colors (hd pals)) \<and> hex c = ''#DD8C3C'')"
    using g len mem cm c(2) by blast
  show ?thesis using mood ex can rr th by simp
qed

section \<open>The round trip through HSL\<close>

lemma js_round_err: "\<bar>of_int (js_round v) - (v :: rat)\<bar> \<le> 1 / 2"
  unfolding js_round_def by linarith

lemma js_round_near:
  assumes "\<bar>(v :: rat) - of_int n\<bar> < 11 / 2"
  shows "\<bar>js_round v - n\<bar> \<le> 5"
proof -
  from assms have "v + 1 / 2 < of_int n + 6" "of_int n - 5 \<le> v + 1 / 2"
    by linarith+
  then have 1: "v + 1 / 2 < of_int (n + 6)" and 2: "of_int (n - 5) \<le> v + 1 / 2"
    by simp_all
  from 1 have "\<lfloor>v + 1 / 2\<rfloor> < n + 6" by (simp only: floor_less_iff)
  moreover from 2 have "n - 5 \<le> \<lfloor>v + 1 / 2\<rfloor>" by (simp only: le_floor_iff)
  ultimately show ?thesis unfolding js_round_def by linarith
qed

lemma hueWeight_lipschitz:
  assumes "- 1 / 3 \<le> u" "u \<le> 4 / 3" "- 1 / 3 \<le> v" "v \<le> 4 / 3"
  shows "\<bar>hueWeight u - hueWeight v\<bar> \<le> 6 * \<bar>u - v\<bar>"
  using assms unfolding hueWeight_def Let_def
  by (auto simp: abs_if split: if_splits)

lemma chroma_eq: "chroma x y = x * (1 - \<bar>2 * y - 1\<bar>)"
  by (simp add: chroma_def hslQ_def hslP_def abs_if algebra_simps)

lemma hslP_chroma: "hslP x y = y - chroma x y / 2"
  by (simp add: chroma_def hslP_def field_simps)

lemma hslChannel_chroma:
  "hslChannel sat lig w = js_round ((lig / 100 + chroma (sat / 100) (lig / 100) * (w - 1 / 2)) * 255)"
proof -
  have "hslP (sat / 100) (lig / 100) + (hslQ (sat / 100) (lig / 100) - hslP (sat / 100) (lig / 100)) * w
        = lig / 100 + chroma (sat / 100) (lig / 100) * (w - 1 / 2)"
    unfolding chroma_def hslP_def by (simp add: field_simps)
  then show ?thesis unfolding hslChannel_def by simp
qed

lemma chroma_exact:
  assumes "0 \<le> mn" "mn < mx" "mx \<le> 1"
  shows "chroma (satFrac mx mn) ((mx + mn) / 2) = mx - mn"
proof (cases "(mx + mn) / 2 > 1 / 2")
  case True
  have e: "2 * ((mx + mn) / 2) = mx + mn" by simp
  from True have a: "\<bar>2 * ((mx + mn) / 2) - 1\<bar> = mx + mn - 1" unfolding e by simp
  have nz: "2 - mx - mn \<noteq> 0" using assms by linarith
  have sf: "satFrac mx mn = (mx - mn) / (2 - mx - mn)" using True assms by (simp add: satFrac_def)
  have k: "1 - (mx + mn - 1) = 2 - mx - mn" by simp
  show ?thesis unfolding chroma_eq sf a k
    by (simp only: times_divide_eq_left nonzero_mult_div_cancel_right[OF nz])
next
  case False
  have e: "2 * ((mx + mn) / 2) = mx + mn" by simp
  from False have a: "\<bar>2 * ((mx + mn) / 2) - 1\<bar> = 1 - mx - mn" unfolding e by simp
  have nz: "mx + mn \<noteq> 0" using assms by linarith
  have sf: "satFrac mx mn = (mx - mn) / (mx + mn)" using False assms by (simp add: satFrac_def)
  have k: "1 - (1 - mx - mn) = mx + mn" by simp
  show ?thesis unfolding chroma_eq sf a k
    by (simp only: times_divide_eq_left nonzero_mult_div_cancel_right[OF nz])
qed

lemma chroma_lipschitz:
  assumes "0 \<le> y1" "y1 \<le> 1" "0 \<le> x2" "x2 \<le> 1"
    and "\<bar>x1 - x2\<bar> \<le> e1" "\<bar>y1 - y2\<bar> \<le> e2"
  shows "\<bar>chroma x1 y1 - chroma x2 y2\<bar> \<le> e1 + 2 * e2"
proof -
  define k1 where "k1 = 1 - \<bar>2 * y1 - 1\<bar>"
  define k2 where "k2 = 1 - \<bar>2 * y2 - 1\<bar>"
  have k1: "0 \<le> k1" "k1 \<le> 1" using assms(1,2) unfolding k1_def by linarith+
  have kk: "\<bar>k1 - k2\<bar> \<le> 2 * e2" using assms(6) unfolding k1_def k2_def by linarith
  have "chroma x1 y1 - chroma x2 y2 = (x1 - x2) * k1 + x2 * (k1 - k2)"
    unfolding chroma_eq k1_def[symmetric] k2_def[symmetric] by (simp add: algebra_simps)
  moreover have "\<bar>(x1 - x2) * k1\<bar> \<le> e1 * 1"
    unfolding abs_mult using assms(5) k1 by (intro mult_mono) simp_all
  moreover have "\<bar>x2 * (k1 - k2)\<bar> \<le> 1 * (2 * e2)"
    unfolding abs_mult using assms(3,4) kk by (intro mult_mono) simp_all
  ultimately show ?thesis by linarith
qed

lemma hueFrac_normalized:
  assumes "max (max a1 a2) a3 = 1" "min (min a1 a2) a3 = 0"
  shows "hueFrac a1 a2 a3 =
      (if a1 = 1 then ((a2 - a3) + (if a2 < a3 then 6 else 0)) / 6
       else if a2 = 1 then ((a3 - a1) + 2) / 6 else ((a1 - a2) + 4) / 6)"
  unfolding hueFrac_def Let_def assms by simp

lemma weights_of_normalized_conj:
  assumes "max (max a1 a2) a3 = 1" "min (min a1 a2) a3 = 0"
  shows "hueWeight (hueFrac a1 a2 a3 + 1 / 3) = a1 \<and> hueWeight (hueFrac a1 a2 a3) = a2 \<and>
         hueWeight (hueFrac a1 a2 a3 - 1 / 3) = a3"
proof -
  have rg: "a1 \<le> 1" "a2 \<le> 1" "a3 \<le> 1" "0 \<le> a1" "0 \<le> a2" "0 \<le> a3"
    using assms by linarith+
  consider (A) "a1 = 1" "a3 \<le> a2" | (B) "a1 = 1" "a2 < a3" | (C) "a1 < 1" "a2 = 1" | (D) "a1 < 1" "a2 < 1"
    using rg by linarith
  then show ?thesis
  proof cases
    case A
    then have z: "a3 = 0" using assms by linarith
    have f: "hueFrac a1 a2 a3 = a2 / 6" unfolding hueFrac_normalized[OF assms] using A z by simp
    show ?thesis
      unfolding f hueWeight_def Let_def using A z rg by (auto split: if_splits)
  next
    case B
    then have z: "a2 = 0" using assms by linarith
    have f: "hueFrac a1 a2 a3 = 1 - a3 / 6" unfolding hueFrac_normalized[OF assms] using B z
      by (simp add: diff_divide_distrib add_divide_distrib)
    show ?thesis
      unfolding f hueWeight_def Let_def using B z rg by (auto split: if_splits)
  next
    case C
    then have z: "a1 = 0 \<or> a3 = 0" using assms by linarith
    have f: "hueFrac a1 a2 a3 = 1 / 3 + a3 / 6 - a1 / 6" unfolding hueFrac_normalized[OF assms] using C
      by (simp add: diff_divide_distrib add_divide_distrib)
    show ?thesis
      unfolding f hueWeight_def Let_def using C z rg by (auto split: if_splits)
  next
    case D
    then have o: "a3 = 1" using assms by linarith
    have z: "a1 = 0 \<or> a2 = 0" using D o assms by linarith
    have f: "hueFrac a1 a2 a3 = 2 / 3 + a1 / 6 - a2 / 6" unfolding hueFrac_normalized[OF assms] using D
      by (simp add: diff_divide_distrib add_divide_distrib)
    show ?thesis
      unfolding f hueWeight_def Let_def using D o z rg by (auto split: if_splits)
  qed
qed

lemma max_affine: "0 < (d::rat) \<Longrightarrow> max (m + d * u) (m + d * v) = m + d * max u v"
  by (simp add: max_def)

lemma min_affine: "0 < (d::rat) \<Longrightarrow> min (m + d * u) (m + d * v) = m + d * min u v"
  by (simp add: min_def)

lemma hueFrac_affine:
  assumes "0 < d"
  shows "hueFrac (m + d * a1) (m + d * a2) (m + d * a3) = hueFrac a1 a2 a3"
proof -
  have 1: "m + d * u - (m + d * v) = d * (u - v)" for u v by (simp add: algebra_simps)
  have 2: "m + d * u = m + d * v \<longleftrightarrow> u = v" for u v using assms by simp
  have 3: "m + d * u < m + d * v \<longleftrightarrow> u < v" for u v using assms by simp
  have 4: "d * u / (d * v) = u / v" for u v using assms by simp
  have 5: "d * u = 0 \<longleftrightarrow> u = 0" for u using assms by simp
  show ?thesis
    unfolding hueFrac_def Let_def max_affine[OF assms] min_affine[OF assms] 1 2 3 4 5 ..
qed

lemma channel_close:
  fixes X L d a w' :: rat and ss ll x :: int
  assumes X: "of_int x / 255 = L + d * (a - 1 / 2)"
    and d: "0 \<le> d" "d \<le> 1"
    and c: "\<bar>chroma (of_int ss / 100) (of_int ll / 100) - d\<bar> \<le> 3 / 200"
    and l1: "\<bar>of_int ll / 100 - L\<bar> \<le> 1 / 200"
    and w: "0 \<le> w'" "w' \<le> 1" "\<bar>w' - a\<bar> \<le> 1 / 120"
  shows "\<bar>hslChannel (of_int ss) (of_int ll) w' - x\<bar> \<le> 5"
proof -
  define c' where "c' = chroma (of_int ss / 100) (of_int ll / 100)"
  define v' where "v' = of_int ll / 100 + c' * (w' - 1 / 2)"
  define e1 where "e1 = (c' - d) * (w' - 1 / 2)"
  define e2 where "e2 = d * (w' - a)"
  have split: "v' - of_int x / 255 = (of_int ll / 100 - L) + e1 + e2"
    unfolding X v'_def e1_def e2_def by (simp add: field_simps)
  have wh: "\<bar>w' - 1 / 2\<bar> \<le> 1 / 2" using w(1,2) by linarith
  have "\<bar>e1\<bar> \<le> 3 / 200 * (1 / 2)"
    unfolding e1_def abs_mult using c wh unfolding c'_def[symmetric]
    by (intro mult_mono) simp_all
  moreover have "\<bar>e2\<bar> \<le> 1 * (1 / 120)"
    unfolding e2_def abs_mult using d w(3) by (intro mult_mono) simp_all
  ultimately have "\<bar>v' - of_int x / 255\<bar> \<le> 1 / 48" using l1 unfolding split by linarith
  then have "\<bar>v' * 255 - of_int x\<bar> < 11 / 2" by linarith
  then have "\<bar>js_round (v' * 255) - x\<bar> \<le> 5" by (rule js_round_near)
  then show ?thesis unfolding hslChannel_chroma v'_def c'_def by simp
qed

lemma round_percent:
  fixes v :: rat and n :: int
  assumes "0 < n"
  shows "\<bar>of_int (js_round (v * of_int n)) / of_int n - v\<bar> \<le> 1 / (2 * of_int n)"
proof -
  define A :: rat where "A = of_int (js_round (v * of_int n))"
  define k :: rat where "k = of_int n"
  have k: "0 < k" using assms unfolding k_def by simp
  have "\<bar>A - v * k\<bar> \<le> 1 / 2" unfolding A_def k_def by (rule js_round_err)
  then have "\<bar>A - v * k\<bar> / k \<le> (1 / 2) / k"
    using k by (intro divide_right_mono) simp_all
  moreover have "A / k - v = (A - v * k) / k" using k by (simp add: diff_divide_distrib)
  then have "\<bar>A / k - v\<bar> = \<bar>A - v * k\<bar> / k" using k by (simp only: abs_divide abs_of_pos)
  ultimately have "\<bar>A / k - v\<bar> \<le> 1 / (2 * k)" by simp
  then show ?thesis unfolding A_def k_def .
qed

lemma hsl_roundtrip_channels:
  fixes x y z :: int
  assumes rg: "0 \<le> x" "x \<le> 255" "0 \<le> y" "y \<le> 255" "0 \<le> z" "z \<le> 255"
  shows "\<bar>r (hslRoundTrip x y z) - x\<bar> \<le> 5 \<and> \<bar>g (hslRoundTrip x y z) - y\<bar> \<le> 5 \<and>
         \<bar>b (hslRoundTrip x y z) - z\<bar> \<le> 5"
proof -
  define X1 X2 X3 :: rat where "X1 = of_int x / 255" and "X2 = of_int y / 255" and "X3 = of_int z / 255"
  define mx where "mx = max (max X1 X2) X3"
  define mn where "mn = min (min X1 X2) X3"
  define d where "d = mx - mn"
  define L where "L = (mx + mn) / 2"
  define Hf where "Hf = hueFrac X1 X2 X3"
  define hh where "hh = js_round (Hf * 360)"
  define ss where "ss = js_round (satFrac mx mn * 100)"
  define ll where "ll = js_round (L * 100)"
  have Xr: "0 \<le> X1" "X1 \<le> 1" "0 \<le> X2" "X2 \<le> 1" "0 \<le> X3" "X3 \<le> 1"
    using rg unfolding X1_def X2_def X3_def by simp_all
  have m: "0 \<le> mn" "mn \<le> mx" "mx \<le> 1" using Xr unfolding mx_def mn_def by (simp_all add: min_def max_def)
  have mb: "mn \<le> X1" "X1 \<le> mx" "mn \<le> X2" "X2 \<le> mx" "mn \<le> X3" "X3 \<le> mx"
    unfolding mx_def mn_def by simp_all
  have dr: "0 \<le> d" "d \<le> 1" using m unfolding d_def by linarith+
  have Lr: "0 \<le> L" "L \<le> 1" using m unfolding L_def by simp_all
  have v: "rgbToHsl (of_int x) (of_int y) (of_int z) = \<lparr>h = hh, s = ss, l = ll\<rparr>"
    unfolding rgbToHsl_frac hh_def ss_def ll_def Hf_def L_def mx_def mn_def X1_def X2_def X3_def ..
  have Hr: "0 \<le> Hf" "Hf \<le> 1" using hueFrac_range[of X1 X2 X3] unfolding Hf_def by simp_all
  have hhr: "0 \<le> hh" "hh \<le> 360"
    using js_round_scale_range[of Hf 360] Hr unfolding hh_def by simp_all
  define q :: rat where "q = of_int hh / 360"
  have hq: "0 \<le> q" "q \<le> 1" using hhr unfolding q_def by simp_all
  have herr: "\<bar>q - Hf\<bar> \<le> 1 / 720"
    using round_percent[of 360 Hf] unfolding hh_def q_def by simp
  have rt: "hslRoundTrip x y z =
      \<lparr>r = hslChannel (of_int ss) (of_int ll) (hueWeight (q + 1 / 3)),
       g = hslChannel (of_int ss) (of_int ll) (hueWeight q),
       b = hslChannel (of_int ss) (of_int ll) (hueWeight (q - 1 / 3))\<rparr>"
    unfolding hslRoundTrip_def v Let_def hslToRgb_Some q_def by simp
  have llr: "0 \<le> (of_int ll :: rat) / 100" "(of_int ll :: rat) / 100 \<le> 1"
    using js_round_scale_range[of L 100] Lr unfolding ll_def by simp_all
  have lerr: "\<bar>(of_int ll :: rat) / 100 - L\<bar> \<le> 1 / 200"
    using round_percent[of 100 L] unfolding ll_def by simp
  have serr: "\<bar>(of_int ss :: rat) / 100 - satFrac mx mn\<bar> \<le> 1 / 200"
    using round_percent[of 100 "satFrac mx mn"] unfolding ss_def by simp
  have Sr: "0 \<le> satFrac mx mn" "satFrac mx mn \<le> 1" using satFrac_range[OF m] by simp_all
  have wr: "0 \<le> hueWeight (q + 1 / 3)" "hueWeight (q + 1 / 3) \<le> 1"
      "0 \<le> hueWeight q" "hueWeight q \<le> 1"
      "0 \<le> hueWeight (q - 1 / 3)" "hueWeight (q - 1 / 3) \<le> 1"
    using hq by (intro hueWeight_range; linarith)+
  have lip: "\<bar>hueWeight (q + 1 / 3) - hueWeight (Hf + 1 / 3)\<bar> \<le> 1 / 120"
      "\<bar>hueWeight q - hueWeight Hf\<bar> \<le> 1 / 120"
      "\<bar>hueWeight (q - 1 / 3) - hueWeight (Hf - 1 / 3)\<bar> \<le> 1 / 120"
  proof -
    have "\<bar>hueWeight (q + 1 / 3) - hueWeight (Hf + 1 / 3)\<bar>
          \<le> 6 * \<bar>(q + 1 / 3) - (Hf + 1 / 3)\<bar>"
      using hq Hr by (intro hueWeight_lipschitz; linarith)
    then show "\<bar>hueWeight (q + 1 / 3) - hueWeight (Hf + 1 / 3)\<bar> \<le> 1 / 120"
      using herr by simp
    have "\<bar>hueWeight q - hueWeight Hf\<bar> \<le> 6 * \<bar>q - Hf\<bar>"
      using hq Hr by (intro hueWeight_lipschitz; linarith)
    then show "\<bar>hueWeight q - hueWeight Hf\<bar> \<le> 1 / 120"
      using herr by simp
    have "\<bar>hueWeight (q - 1 / 3) - hueWeight (Hf - 1 / 3)\<bar>
          \<le> 6 * \<bar>(q - 1 / 3) - (Hf - 1 / 3)\<bar>"
      using hq Hr by (intro hueWeight_lipschitz; linarith)
    then show "\<bar>hueWeight (q - 1 / 3) - hueWeight (Hf - 1 / 3)\<bar> \<le> 1 / 120"
      using herr by simp
  qed
  show ?thesis
  proof (cases "d = 0")
    case True
    then have mm: "mx = mn" unfolding d_def by simp
    have eq: "X1 = L" "X2 = L" "X3 = L" using mb unfolding L_def mm by auto
    have "satFrac mx mn = 0" using True unfolding d_def satFrac_def by simp
    moreover have "js_round (0 :: rat) = 0" unfolding js_round_def by linarith
    ultimately have ss0: "ss = 0" unfolding ss_def by simp
    have c0: "\<bar>chroma (of_int ss / 100) (of_int ll / 100) - d\<bar> \<le> 3 / 200"
      unfolding ss0 True chroma_eq by simp
    have e: "of_int x / 255 = L + d * (w0 - 1 / 2)" "of_int y / 255 = L + d * (w0 - 1 / 2)"
      "of_int z / 255 = L + d * (w0 - 1 / 2)" for w0
      using eq True unfolding X1_def X2_def X3_def by simp_all
    have z0: "\<bar>t - t\<bar> \<le> 1 / 120" for t :: rat by simp
    show ?thesis unfolding rt
      using channel_close[OF e(1)[of "hueWeight (q + 1 / 3)"] dr c0 lerr wr(1,2) z0]
        channel_close[OF e(2)[of "hueWeight q"] dr c0 lerr wr(3,4) z0]
        channel_close[OF e(3)[of "hueWeight (q - 1 / 3)"] dr c0 lerr wr(5,6) z0]
      by simp
  next
    case False
    then have dpos: "0 < d" using dr by linarith
    then have lt: "mn < mx" unfolding d_def by linarith
    define a1 a2 a3 where "a1 = (X1 - mn) / d" and "a2 = (X2 - mn) / d" and "a3 = (X3 - mn) / d"
    have Xa: "X1 = mn + d * a1" "X2 = mn + d * a2" "X3 = mn + d * a3"
      using False unfolding a1_def a2_def a3_def by simp_all
    have "max (max (mn + d * a1) (mn + d * a2)) (mn + d * a3) = mx"
      unfolding Xa[symmetric] by (rule mx_def[symmetric])
    then have "mn + d * max (max a1 a2) a3 = mn + d * 1"
      unfolding max_affine[OF dpos] by (simp add: d_def)
    then have mxa: "max (max a1 a2) a3 = 1" using False by simp
    have "min (min (mn + d * a1) (mn + d * a2)) (mn + d * a3) = mn"
      unfolding Xa[symmetric] by (rule mn_def[symmetric])
    then have "mn + d * min (min a1 a2) a3 = mn + d * 0"
      unfolding min_affine[OF dpos] by simp
    then have mna: "min (min a1 a2) a3 = 0" using False by simp
    have "Hf = hueFrac a1 a2 a3" unfolding Hf_def Xa by (rule hueFrac_affine[OF dpos])
    with weights_of_normalized_conj[OF mxa mna]
    have wa: "hueWeight (Hf + 1 / 3) = a1" "hueWeight Hf = a2" "hueWeight (Hf - 1 / 3) = a3"
      by simp_all
    have Lm: "L = mn + d / 2" unfolding L_def d_def by (simp add: field_simps)
    have "mn + d * u = mn + d / 2 + d * (u - 1 / 2)" for u by (simp add: right_diff_distrib)
    then have "X1 = L + d * (a1 - 1 / 2)" "X2 = L + d * (a2 - 1 / 2)" "X3 = L + d * (a3 - 1 / 2)"
      unfolding Lm using Xa by (simp_all only:)
    then have e: "of_int x / 255 = L + d * (a1 - 1 / 2)" "of_int y / 255 = L + d * (a2 - 1 / 2)"
      "of_int z / 255 = L + d * (a3 - 1 / 2)"
      unfolding X1_def X2_def X3_def .
    have "chroma (satFrac mx mn) L = d" unfolding L_def d_def by (rule chroma_exact[OF m(1) lt m(3)])
    moreover have "\<bar>chroma (of_int ss / 100) (of_int ll / 100) - chroma (satFrac mx mn) L\<bar>
        \<le> 1 / 200 + 2 * (1 / 200)"
      by (rule chroma_lipschitz[OF llr Sr serr lerr])
    ultimately have c0: "\<bar>chroma (of_int ss / 100) (of_int ll / 100) - d\<bar> \<le> 3 / 200" by simp
    show ?thesis unfolding rt
      using channel_close[OF e(1) dr c0 lerr wr(1,2) lip(1)[unfolded wa]]
        channel_close[OF e(2) dr c0 lerr wr(3,4) lip(2)[unfolded wa]]
        channel_close[OF e(3) dr c0 lerr wr(5,6) lip(3)[unfolded wa]]
      by simp
  qed
qed

lemma hslRoundTrip_example: "hslRoundTrip 2 228 230 = \<lparr>r = 2, g = 223, b = 227\<rparr>"
  by code_simp


text \<open>
  C7, at the triple (2, 228, 230): \<^verbatim>\<open>rgbToHsl\<close> rounds it to HSL (181, 98, 45) and
  \<^verbatim>\<open>hslToRgb\<close> returns (2, 223, 227), so the green channel is off by 5: not within 2
  of the original, and not below 5 either. At no triple of [0,255] is a channel off by more
  than 5 (lemma \<open>hsl_roundtrip_channels\<close>).
\<close>

theorem hsl_roundtrip_loses_5:
  "hslRoundTrip 2 228 230 = \<lparr>r = 2, g = 223, b = 227\<rparr> \<and>
   \<not> \<bar>g (hslRoundTrip 2 228 230) - 228\<bar> \<le> 2 \<and>
   \<not> \<bar>g (hslRoundTrip 2 228 230) - 228\<bar> < 5"
  by (simp add: hslRoundTrip_example)

section \<open>Mood compliance after the application-type adjustment\<close>

lemma hw_one: "1 / 6 \<le> t \<Longrightarrow> t < 1 / 2 \<Longrightarrow> hueWeight t = 1"
  by (simp add: hueWeight_def Let_def)

lemma hw_one_wrap: "7 / 6 \<le> t \<Longrightarrow> t < 3 / 2 \<Longrightarrow> hueWeight t = 1"
  by (simp add: hueWeight_def Let_def)

lemma hw_zero: "2 / 3 \<le> t \<Longrightarrow> t \<le> 1 \<Longrightarrow> hueWeight t = 0"
  by (simp add: hueWeight_def Let_def)

lemma hw_zero_neg: "- 1 / 3 \<le> t \<Longrightarrow> t < 0 \<Longrightarrow> hueWeight t = 0"
  by (simp add: hueWeight_def Let_def)

lemma hueWeight_extremes:
  assumes "0 \<le> x" "x \<le> 1"
  shows "(hueWeight (x + 1 / 3) = 1 \<or> hueWeight x = 1 \<or> hueWeight (x - 1 / 3) = 1) \<and>
         (hueWeight (x + 1 / 3) = 0 \<or> hueWeight x = 0 \<or> hueWeight (x - 1 / 3) = 0)"
proof -
  consider (1) "x < 1 / 6" | (2) "1 / 6 \<le> x" "x < 1 / 3" | (3) "1 / 3 \<le> x" "x < 1 / 2"
    | (4) "1 / 2 \<le> x" "x \<le> 2 / 3" | (5) "2 / 3 < x" "x < 5 / 6" | (6) "5 / 6 \<le> x"
    by linarith
  then show ?thesis
  proof cases
    case 1
    have "hueWeight (x + 1 / 3) = 1" using 1 assms by (intro hw_one) linarith+
    moreover have "hueWeight (x - 1 / 3) = 0" using 1 assms by (intro hw_zero_neg) linarith+
    ultimately show ?thesis by simp
  next
    case 2
    have "hueWeight x = 1" using 2 by (intro hw_one) linarith+
    moreover have "hueWeight (x - 1 / 3) = 0" using 2 by (intro hw_zero_neg) linarith+
    ultimately show ?thesis by simp
  next
    case 3
    have "hueWeight x = 1" using 3 by (intro hw_one) linarith+
    moreover have "hueWeight (x + 1 / 3) = 0" using 3 by (intro hw_zero) linarith+
    ultimately show ?thesis by simp
  next
    case 4
    have "hueWeight (x - 1 / 3) = 1" using 4 by (intro hw_one) linarith+
    moreover have "hueWeight (x + 1 / 3) = 0" using 4 by (intro hw_zero) linarith+
    ultimately show ?thesis by simp
  next
    case 5
    have "hueWeight (x - 1 / 3) = 1" using 5 by (intro hw_one) linarith+
    moreover have "hueWeight x = 0" using 5 assms by (intro hw_zero) linarith+
    ultimately show ?thesis by simp
  next
    case 6
    have "hueWeight (x + 1 / 3) = 1" using 6 assms by (intro hw_one_wrap) linarith+
    moreover have "hueWeight x = 0" using 6 assms by (intro hw_zero) linarith+
    ultimately show ?thesis by simp
  qed
qed

lemma hslToRgb_extremes:
  assumes "0 \<le> t" "t \<le> 360" "0 \<le> sat" "sat \<le> 100" "0 \<le> lig" "lig \<le> 100"
  shows "max (max (r (hslToRgb (Some t) sat lig)) (g (hslToRgb (Some t) sat lig)))
             (b (hslToRgb (Some t) sat lig)) = hslChannel sat lig 1"
    and "min (min (r (hslToRgb (Some t) sat lig)) (g (hslToRgb (Some t) sat lig)))
             (b (hslToRgb (Some t) sat lig)) = hslChannel sat lig 0"
proof -
  define w1 w2 w3 where "w1 = hueWeight (t / 360 + 1 / 3)" and "w2 = hueWeight (t / 360)"
    and "w3 = hueWeight (t / 360 - 1 / 3)"
  define c1 c2 c3 where "c1 = hslChannel sat lig w1" and "c2 = hslChannel sat lig w2"
    and "c3 = hslChannel sat lig w3"
  define hi lo where "hi = hslChannel sat lig 1" and "lo = hslChannel sat lig 0"
  have x: "0 \<le> t / 360" "t / 360 \<le> 1" using assms by simp_all
  have w: "0 \<le> w1" "w1 \<le> 1" "0 \<le> w2" "w2 \<le> 1" "0 \<le> w3" "w3 \<le> 1"
    unfolding w1_def w2_def w3_def using x by (intro hueWeight_range; linarith)+
  note mono = hslChannel_mono[OF assms(3-6)]
  have bound: "lo \<le> c1" "c1 \<le> hi" "lo \<le> c2" "c2 \<le> hi" "lo \<le> c3" "c3 \<le> hi"
    unfolding c1_def c2_def c3_def hi_def lo_def using w by (auto intro: mono)
  from hueWeight_extremes[OF x] have "(w1 = 1 \<or> w2 = 1 \<or> w3 = 1) \<and> (w1 = 0 \<or> w2 = 0 \<or> w3 = 0)"
    unfolding w1_def w2_def w3_def .
  then have ex: "c1 = hi \<or> c2 = hi \<or> c3 = hi" "c1 = lo \<or> c2 = lo \<or> c3 = lo"
    unfolding c1_def c2_def c3_def hi_def lo_def by auto
  have "max (max c1 c2) c3 = hi" using bound ex(1) by (auto simp: max_def)
  moreover have "min (min c1 c2) c3 = lo" using bound ex(2) by (auto simp: min_def)
  ultimately show "max (max (r (hslToRgb (Some t) sat lig)) (g (hslToRgb (Some t) sat lig)))
             (b (hslToRgb (Some t) sat lig)) = hslChannel sat lig 1"
    and "min (min (r (hslToRgb (Some t) sat lig)) (g (hslToRgb (Some t) sat lig)))
             (b (hslToRgb (Some t) sat lig)) = hslChannel sat lig 0"
    unfolding hslToRgb_Some c1_def c2_def c3_def w1_def w2_def w3_def hi_def lo_def by simp_all
qed

lemma max_of_int_255: "max (rat_of_int x / 255) (rat_of_int y / 255) = rat_of_int (max x y) / 255"
  by (simp add: max_def)

lemma min_of_int_255: "min (rat_of_int x / 255) (rat_of_int y / 255) = rat_of_int (min x y) / 255"
  by (simp add: min_def)

lemma rgbToHsl_sl:
  "(s (rgbToHsl (of_int x) (of_int y) (of_int z)), l (rgbToHsl (of_int x) (of_int y) (of_int z)))
     = measuredSL (max (max x y) z) (min (min x y) z)"
  unfolding rgbToHsl_frac measuredSL_def max_of_int_255 min_of_int_255 by simp

lemma hslHex_measured:
  fixes t :: rat and sat lig :: int
  assumes "0 \<le> t" "t \<le> 360" "0 \<le> sat" "sat \<le> 100" "0 \<le> lig" "lig \<le> 100"
  shows "\<exists>v. hexToHsl (hslHex (Some t) (of_int sat) (of_int lig)) = Some v \<and> okHsl v \<and>
             (s v, l v) = reSL sat lig"
proof -
  let ?c = "hslToRgb (Some t) (of_int sat) (of_int lig)"
  let ?v = "rgbToHsl (of_int (r ?c)) (of_int (g ?c)) (of_int (b ?c))"
  have ok: "hueOk (Some t)" using assms by (simp add: hueOk_def)
  have q: "(0::rat) \<le> of_int sat" "(of_int sat :: rat) \<le> 100" "(0::rat) \<le> of_int lig"
    "(of_int lig :: rat) \<le> 100" using assms by simp_all
  from hslHex_props(2)[OF ok q]
  have rgb: "hexToRgb (hslHex (Some t) (of_int sat) (of_int lig)) =
      \<lparr>r = Some (r ?c), g = Some (g ?c), b = Some (b ?c)\<rparr>" .
  from hslToRgb_range[OF ok q] have rg: "0 \<le> r ?c" "r ?c \<le> 255" "0 \<le> g ?c" "g ?c \<le> 255"
    "0 \<le> b ?c" "b ?c \<le> 255" by blast+
  have 1: "hexToHsl (hslHex (Some t) (of_int sat) (of_int lig)) = Some ?v"
    by (simp add: hexToHsl_def rgb)
  have 2: "okHsl ?v" using rg by (intro rgbToHsl_range) simp_all
  have 3: "(s ?v, l ?v) = reSL sat lig"
    unfolding rgbToHsl_sl reSL_def hslToRgb_extremes[OF assms(1,2) q] ..
  show ?thesis using 1 2 3 by blast
qed

lemma adjusted_sl:
  fixes t :: rat and sat lig :: int
  assumes "0 \<le> t" "t \<le> 360" "0 \<le> sat" "sat \<le> 100" "0 \<le> lig" "lig \<le> 100"
    and sl0: "reSL sat lig = (s0, l0)"
    and f: "\<And>v. okHsl v \<Longrightarrow> s v = s0 \<Longrightarrow> l v = l0 \<Longrightarrow> okHsl (f v) \<and> s (f v) = s1 \<and> l (f v) = l1"
  shows "slOfHex (hslHex (Some t) (of_int sat) (of_int lig)) = Some (s0, l0)"
    and "slOfHex (hslToHex (map_option f (hexToHsl (hslHex (Some t) (of_int sat) (of_int lig)))))
           = Some (reSL s1 l1)"
proof -
  from hslHex_measured[OF assms(1-6)] obtain v where
    v: "hexToHsl (hslHex (Some t) (of_int sat) (of_int lig)) = Some v" "okHsl v" "(s v, l v) = reSL sat lig"
    by blast
  from v(3) sl0 have sv: "s v = s0" "l v = l0" by simp_all
  show "slOfHex (hslHex (Some t) (of_int sat) (of_int lig)) = Some (s0, l0)"
    unfolding slOfHex_def v(1) using sv by simp
  from f[OF v(2) sv] have fv: "okHsl (f v)" "s (f v) = s1" "l (f v) = l1" by simp_all
  have hr: "(0::rat) \<le> of_int (h (f v))" "(of_int (h (f v)) :: rat) \<le> 360"
    and sr: "0 \<le> s (f v)" "s (f v) \<le> 100" and lr: "0 \<le> l (f v)" "l (f v) \<le> 100"
    using fv(1) by (simp_all add: okHsl_def)
  from hslHex_measured[OF hr sr lr] obtain v' where
    v': "hexToHsl (hslHex (Some (of_int (h (f v)))) (of_int (s (f v))) (of_int (l (f v)))) = Some v'"
      "(s v', l v') = reSL (s (f v)) (l (f v))" by blast
  show "slOfHex (hslToHex (map_option f (hexToHsl (hslHex (Some t) (of_int sat) (of_int lig)))))
           = Some (reSL s1 l1)"
    unfolding v(1) option.map hslToHex_def option.case slOfHex_def v'(1) using v'(2) fv by simp
qed

lemma reSL_table:
  "reSL 45 75 = (45, 75)" "reSL 40 78 = (40, 78)" "reSL 48 72 = (48, 72)"
  "reSL 70 60 = (70, 60)" "reSL 65 55 = (65, 55)" "reSL 80 65 = (80, 65)"
  "reSL 58 60 = (58, 60)" "reSL 58 55 = (58, 55)" "reSL 58 65 = (58, 65)"
  "reSL 10 12 = (10, 12)" "reSL 8 18 = (9, 18)" "reSL 9 18 = (9, 18)"
  by code_simp+

lemma roleSL_hexAt: "roleSL pal k = (case hexAt pal k of None \<Rightarrow> None | Some hs \<Rightarrow> slOfHex hs)"
  by (simp add: roleSL_def hexAt_def split: option.splits)

lemma map_of_map_keyed:
  "map_of (map (\<lambda>(k, c). (k, F k c)) xs) k = map_option (F k) (map_of xs k)"
  by (induction xs) auto

lemma hexAt_professional:
  "hexAt (applyProfessionalAdjustments pal) k =
     map_option (\<lambda>hs. hslToHex (map_option (profAdjust k) (hexToHsl hs))) (hexAt pal k)"
proof -
  have "colors (applyProfessionalAdjustments pal) =
      map (\<lambda>(k, c). (k, \<lparr>hex = hslToHex (map_option (profAdjust k) (hexToHsl (hex c))),
                           role = role c, usage = usage c\<rparr>)) (colors pal)"
    unfolding applyProfessionalAdjustments_def profAdjust_def by simp
  then show ?thesis unfolding hexAt_def
    by (simp only: map_of_map_keyed option.map_comp comp_def color.simps)
qed

lemma hexAt_playful:
  "hexAt (applyPlayfulAdjustments pal) k =
     map_option (\<lambda>hs. hslToHex (map_option (playAdjust k) (hexToHsl hs))) (hexAt pal k)"
proof -
  have "colors (applyPlayfulAdjustments pal) =
      map (\<lambda>(k, c). (k, \<lparr>hex = hslToHex (map_option (playAdjust k) (hexToHsl (hex c))),
                           role = role c, usage = usage c\<rparr>)) (colors pal)"
    unfolding applyPlayfulAdjustments_def playAdjust_def by simp
  then show ?thesis unfolding hexAt_def
    by (simp only: map_of_map_keyed option.map_comp comp_def color.simps)
qed

lemma hexAt_mkPalette:
  "hexAt (mkPalette a1 a2 a3 a4 a5 a6) ''primary'' = Some a1"
  "hexAt (mkPalette a1 a2 a3 a4 a5 a6) ''secondary'' = Some a2"
  "hexAt (mkPalette a1 a2 a3 a4 a5 a6) ''accent'' = Some a3"
  "hexAt (mkPalette a1 a2 a3 a4 a5 a6) ''background'' = Some a4"
  "hexAt (mkPalette a1 a2 a3 a4 a5 a6) ''surface'' = Some a5"
  "hexAt (mkPalette a1 a2 a3 a4 a5 a6) ''text'' = Some a6"
  by (simp_all add: hexAt_def mkPalette_def)

lemma base_step:
  fixes t :: rat and sat lig :: int
  assumes "0 \<le> t" "t \<le> 360" "0 \<le> sat" "sat \<le> 100" "0 \<le> lig" "lig \<le> 100"
  shows "slOfHex (hslHex (Some t) (of_int sat) (of_int lig)) = Some (reSL sat lig)"
  using adjusted_sl(1)[OF assms, of "fst (reSL sat lig)" "snd (reSL sat lig)" id] by simp

lemma prof_step:
  fixes t :: rat and sat lig :: int
  assumes "0 \<le> t" "t \<le> 360" "0 \<le> sat" "sat \<le> 100" "0 \<le> lig" "lig \<le> 100"
  shows "slOfHex (hslToHex (map_option (profAdjust k) (hexToHsl (hslHex (Some t) (of_int sat) (of_int lig)))))
         = Some (reSL (fst (profSL k (reSL sat lig))) (snd (profSL k (reSL sat lig))))"
proof (rule adjusted_sl(2)[OF assms])
  show "reSL sat lig = (fst (reSL sat lig), snd (reSL sat lig))" by simp
  fix v assume "okHsl v" "s v = fst (reSL sat lig)" "l v = snd (reSL sat lig)"
  then show "okHsl (profAdjust k v) \<and> s (profAdjust k v) = fst (profSL k (reSL sat lig)) \<and>
             l (profAdjust k v) = snd (profSL k (reSL sat lig))"
    by (auto simp: profAdjust_def profSL_def okHsl_def)
qed

lemma play_step:
  fixes t :: rat and sat lig :: int
  assumes "0 \<le> t" "t \<le> 360" "0 \<le> sat" "sat \<le> 100" "0 \<le> lig" "lig \<le> 100"
  shows "slOfHex (hslToHex (map_option (playAdjust k) (hexToHsl (hslHex (Some t) (of_int sat) (of_int lig)))))
         = Some (reSL (fst (playSL k (reSL sat lig))) (snd (playSL k (reSL sat lig))))"
proof (rule adjusted_sl(2)[OF assms])
  show "reSL sat lig = (fst (reSL sat lig), snd (reSL sat lig))" by simp
  fix v assume "okHsl v" "s v = fst (reSL sat lig)" "l v = snd (reSL sat lig)"
  then show "okHsl (playAdjust k v) \<and> s (playAdjust k v) = fst (playSL k (reSL sat lig)) \<and>
             l (playAdjust k v) = snd (playSL k (reSL sat lig))"
    by (auto simp: playAdjust_def playSL_def okHsl_def)
qed

lemma hue_of_int_range:
  assumes "0 \<le> k" "k < 360"
  shows "(0::rat) \<le> of_int k" "(of_int k :: rat) \<le> 360"
  using assms by simp_all

lemma pastel_roles:
  assumes k: "0 \<le> k" "k < 360" and mood: "colorMood prefs = ''pastel''"
  shows "roleSL (paletteFor prefs (Some k)) ''primary'' = Some (45, 75) \<and>
         roleSL (paletteFor prefs (Some k)) ''secondary'' = Some (40, 78) \<and>
         roleSL (paletteFor prefs (Some k)) ''accent'' = Some (48, 72)"
proof -
  note h1 = hue_of_int_range[OF k]
  have "0 \<le> js_rem (k + 60) 360 \<and> js_rem (k + 60) 360 < 360"
    using k by (intro shifted_rem_range) simp_all
  then have h2: "(0::rat) \<le> of_int (js_rem (k + 60) 360)" "(of_int (js_rem (k + 60) 360) :: rat) \<le> 360"
    by simp_all
  have "0 \<le> js_rem (k + 120) 360 \<and> js_rem (k + 120) 360 < 360"
    using k by (intro shifted_rem_range) simp_all
  then have h3: "(0::rat) \<le> of_int (js_rem (k + 120) 360)" "(of_int (js_rem (k + 120) 360) :: rat) \<le> 360"
    by simp_all
  note b = base_step[OF h1, of 45 75] base_step[OF h2, of 40 78] base_step[OF h3, of 48 72]
  note pr = prof_step[OF h1, of 45 75 "''primary''"] prof_step[OF h2, of 40 78 "''secondary''"]
    prof_step[OF h3, of 48 72 "''accent''"]
  note pl = play_step[OF h1, of 45 75 "''primary''"] play_step[OF h2, of 40 78 "''secondary''"]
    play_step[OF h3, of 48 72 "''accent''"]
  show ?thesis
    using b pr pl
    by (simp add: paletteFor_def mood Let_def roleSL_hexAt hexAt_professional hexAt_playful
        generatePastelPalette_def hexAt_mkPalette hueArg_def reSL_table profSL_def playSL_def)
qed

lemma dark_roles:
  assumes k: "0 \<le> k" "k < 360" and mood: "colorMood prefs = ''dark''"
  shows "(\<exists>p. roleSL (paletteFor prefs (Some k)) ''primary'' = Some p \<and> snd p > 50) \<and>
         (\<exists>p. roleSL (paletteFor prefs (Some k)) ''secondary'' = Some p \<and> snd p > 50) \<and>
         (\<exists>p. roleSL (paletteFor prefs (Some k)) ''accent'' = Some p \<and> snd p > 50) \<and>
         (\<exists>p. roleSL (paletteFor prefs (Some k)) ''background'' = Some p \<and> snd p < 20) \<and>
         (\<exists>p. roleSL (paletteFor prefs (Some k)) ''surface'' = Some p \<and> snd p < 20)"
proof -
  note h1 = hue_of_int_range[OF k]
  have "0 \<le> js_rem (k + 30) 360 \<and> js_rem (k + 30) 360 < 360"
    using k by (intro shifted_rem_range) simp_all
  then have h2: "(0::rat) \<le> of_int (js_rem (k + 30) 360)" "(of_int (js_rem (k + 30) 360) :: rat) \<le> 360"
    by simp_all
  have "0 \<le> js_rem (k + 60) 360 \<and> js_rem (k + 60) 360 < 360"
    using k by (intro shifted_rem_range) simp_all
  then have h3: "(0::rat) \<le> of_int (js_rem (k + 60) 360)" "(of_int (js_rem (k + 60) 360) :: rat) \<le> 360"
    by simp_all
  note b = base_step[OF h1, of 70 60] base_step[OF h2, of 65 55] base_step[OF h3, of 80 65]
    base_step[OF h1, of 10 12] base_step[OF h1, of 8 18]
  note pr = prof_step[OF h1, of 70 60 "''primary''"] prof_step[OF h2, of 65 55 "''secondary''"]
    prof_step[OF h3, of 80 65 "''accent''"] prof_step[OF h1, of 10 12 "''background''"]
    prof_step[OF h1, of 8 18 "''surface''"]
  note pl = play_step[OF h1, of 70 60 "''primary''"] play_step[OF h2, of 65 55 "''secondary''"]
    play_step[OF h3, of 80 65 "''accent''"] play_step[OF h1, of 10 12 "''background''"]
    play_step[OF h1, of 8 18 "''surface''"]
  show ?thesis
    using b pr pl
    by (simp add: paletteFor_def mood Let_def roleSL_hexAt hexAt_professional hexAt_playful
        generateDarkModePalette_def hexAt_mkPalette hueArg_def reSL_table profSL_def playSL_def)
qed

lemma generate_roleSL:
  assumes "pal \<in> set (palettesOf prefs)"
  shows "\<exists>seed \<in> set (seedsOf (generateBaseHue (appType prefs) (purpose prefs))).
           \<forall>k. roleSL pal k = roleSL (paletteFor prefs seed) k"
  using assms by (auto simp: palettesOf_def Let_def roleSL_def)

lemma regular_seed:
  assumes "appType prefs \<notin> set objectPrototypeKeys"
    and "seed \<in> set (seedsOf (generateBaseHue (appType prefs) (purpose prefs)))"
  shows "\<exists>k. seed = Some k \<and> 0 \<le> k \<and> k < 360"
proof -
  from generateBaseHue_regular[OF assms(1)] obtain k0 where
    k0: "generateBaseHue (appType prefs) (purpose prefs) = Some k0" by blast
  from assms(2) have "seed \<noteq> None" unfolding k0 seedsOf_def by auto
  then obtain k where "seed = Some k" by blast
  with seedsOf_ok[OF assms(2)] show ?thesis by (simp add: seedOk_def)
qed

lemma pastel_compliance_regular:
  assumes "appType prefs \<notin> set objectPrototypeKeys" "colorMood prefs = ''pastel''"
    and "pal \<in> set (palettesOf prefs)" "k \<in> {''primary'', ''secondary'', ''accent''}"
  shows "\<exists>p. roleSL pal k = Some p \<and> fst p < 50 \<and> snd p > 70"
proof -
  from generate_roleSL[OF assms(3)] obtain seed where
    seed: "seed \<in> set (seedsOf (generateBaseHue (appType prefs) (purpose prefs)))"
    and eq: "\<And>k. roleSL pal k = roleSL (paletteFor prefs seed) k" by blast
  from regular_seed[OF assms(1) seed] obtain n where n: "seed = Some n" "0 \<le> n" "n < 360" by blast
  from pastel_roles[OF n(2,3) assms(2)] assms(4) show ?thesis unfolding eq n(1) by auto
qed

lemma dark_compliance_regular:
  assumes "appType prefs \<notin> set objectPrototypeKeys" "colorMood prefs = ''dark''"
    and "pal \<in> set (palettesOf prefs)"
  shows "(k \<in> {''primary'', ''secondary'', ''accent''} \<longrightarrow> (\<exists>p. roleSL pal k = Some p \<and> snd p > 50)) \<and>
         (k \<in> {''background'', ''surface''} \<longrightarrow> (\<exists>p. roleSL pal k = Some p \<and> snd p < 20))"
proof -
  from generate_roleSL[OF assms(3)] obtain seed where
    seed: "seed \<in> set (seedsOf (generateBaseHue (appType prefs) (purpose prefs)))"
    and eq: "\<And>k. roleSL pal k = roleSL (paletteFor prefs seed) k" by blast
  from regular_seed[OF assms(1) seed] obtain n where n: "seed = Some n" "0 \<le> n" "n < 360" by blast
  from dark_roles[OF n(2,3) assms(2)] show ?thesis unfolding eq n(1) by auto
qed

lemma hslHex_nan_45_75: "hslHex None 45 75 = ''#A3A3A3''"
  by code_simp

lemma hexToHsl_A3: "hexToHsl ''#A3A3A3'' = Some \<lparr>h = 0, s = 0, l = 64\<rparr>"
  by code_simp

text \<open>
  C3, at the input \<^verbatim>\<open>appType = 'constructor'\<close>, \<^verbatim>\<open>purpose = 'x'\<close>,
  \<^verbatim>\<open>colorMood = 'pastel'\<close>: the base hue is \<^verbatim>\<open>NaN\<close> (see C9), \<^verbatim>\<open>hue2rgb\<close>
  returns \<open>p\<close> for every channel, and each primary colour is the grey \<^verbatim>\<open>#A3A3A3\<close>, whose
  lightness reads back as 64, not above 70. For every application type that is not the name
  of an inherited property the claim holds, adjustments included (lemmas
  \<open>pastel_compliance_regular\<close> and \<open>dark_compliance_regular\<close>).
\<close>

theorem pastel_inherited_key_grey:
  "map_sum id (map primaryHex)
     (generate \<lparr>appType = ''constructor'', purpose = [120], colorMood = ''pastel''\<rparr>)
     = Inr [Some ''#A3A3A3'', Some ''#A3A3A3'', Some ''#A3A3A3''] \<and>
   hexToHsl ''#A3A3A3'' = Some \<lparr>h = 0, s = 0, l = 64\<rparr>"
proof -
  let ?prefs = "\<lparr>appType = ''constructor'', purpose = [120], colorMood = ''pastel''\<rparr>"
  have "generateBaseHue ''constructor'' [120] = None"
    by (rule generateBaseHue_inherited) (simp add: objectPrototypeKeys_def)
  then have "map primaryHex (palettesOf ?prefs)
      = [Some ''#A3A3A3'', Some ''#A3A3A3'', Some ''#A3A3A3'']"
    unfolding primaryHex_generate
    by (simp add: seedsOf_def paletteFor_def generatePastelPalette_def Let_def mkPalette_def
        primaryHex_def hueArg_def hslHex_nan_45_75)
  moreover have "generate ?prefs = Inr (palettesOf ?prefs)"
    by (simp add: generate_def objectPrototypeKeys_def)
  ultimately show ?thesis by (simp add: hexToHsl_A3)
qed

end
